theory Spec2Isabelle
  imports Complex_Main "HOL-Library.Word" "HOL-Library.Multiset"
  "HOL-Library.Product_Lexorder"
begin

unbundle bit_operations_syntax

section \<open>The best overlap graph of AS\_BAT\_BestOverlapGraph.H\<close>

text \<open>
  The header declares three value classes (\<open>ReadEnd\<close>, \<open>BestEdgeOverlap\<close>,
  \<open>BestOverlaps\<close>) and the class \<open>BestOverlapGraph\<close> with its inline queries.
  Member functions that mutate \<open>this\<close> take the object and return the new one.
  A \<open>uint32\<close> or \<open>int32\<close> is a \<open>32 word\<close>, read with \<open>unat\<close> or \<open>sint\<close>; a
  bit-field of \<open>n\<close> bits is an \<open>n word\<close>, and a store into it is the conversion
  C++ performs (\<open>ucast\<close> from an unsigned value, \<open>scast\<close> from a signed one).
\<close>

type_synonym uint32 = "32 word"
type_synonym int32 = "32 word"
type_synonym uint64 = "64 word"

subsection \<open>ReadEnd\<close>

text \<open>\<open>uint32 _id:31; uint32 _e3p:1;\<close>\<close>

record ReadEnd =
  re_id :: "31 word"
  re_e3p :: bool

text \<open>\<open>ReadEnd()\<close>\<close>

definition ReadEnd_default :: ReadEnd where
  "ReadEnd_default = \<lparr> re_id = 0, re_e3p = False \<rparr>"

text \<open>\<open>ReadEnd(uint32 id, bool e3p)\<close>: the 32-bit argument is stored into 31 bits.\<close>

definition ReadEnd_of :: "uint32 \<Rightarrow> bool \<Rightarrow> ReadEnd" where
  "ReadEnd_of rid e3p = \<lparr> re_id = ucast rid, re_e3p = e3p \<rparr>"

definition re_readId :: "ReadEnd \<Rightarrow> uint32" where
  "re_readId e = ucast (re_id e)"

definition re_read3p :: "ReadEnd \<Rightarrow> bool" where
  "re_read3p e = (re_e3p e = True)"

definition re_read5p :: "ReadEnd \<Rightarrow> bool" where
  "re_read5p e = (re_e3p e = False)"

text \<open>\<open>operator==\<close>, \<open>operator!=\<close> and \<open>operator<\<close>.\<close>

definition re_eq :: "ReadEnd \<Rightarrow> ReadEnd \<Rightarrow> bool" where
  "re_eq this that = (re_readId this = re_readId that \<and> re_read3p this = re_read3p that)"

definition re_neq :: "ReadEnd \<Rightarrow> ReadEnd \<Rightarrow> bool" where
  "re_neq this that = (re_readId this \<noteq> re_readId that \<or> re_read3p this \<noteq> re_read3p that)"

definition re_less :: "ReadEnd \<Rightarrow> ReadEnd \<Rightarrow> bool" where
  "re_less this that =
     (if re_readId this \<noteq> re_readId that then re_readId this < re_readId that
      else re_read3p this < re_read3p that)"

subsection \<open>The overlap handed to a best edge\<close>

text \<open>
  \<open>BAToverlap\<close> is declared in AS\_BAT\_OverlapCache.H, which is not among the
  sources. The record has the members the header reads (\<open>b_iid\<close>, \<open>a_hang\<close>,
  \<open>b_hang\<close>, \<open>flipped\<close>, \<open>evalue\<close>) and \<open>a_iid\<close>, the read the overlap is scored
  from. The types of the hangs and of the error code are parameters: they are those
  of the fields the values are stored into (\<open>'h word\<close> for a hang of
  \<open>AS_MAX_READLEN_BITS+1\<close> bits, \<open>'e word\<close> for an error code of
  \<open>AS_MAX_EVALUE_BITS\<close> bits). Its member function \<open>BEndIs3prime()\<close> is a
  parameter of every function that calls it.
\<close>

record ('h, 'e) BAToverlap =
  a_iid :: uint32
  b_iid :: uint32
  a_hang :: 'h
  b_hang :: 'h
  flipped :: bool
  evalue :: 'e

type_synonym ('h, 'e) olap = "('h word, 'e word) BAToverlap"

subsection \<open>BestEdgeOverlap\<close>

text \<open>
  \<open>uint32 _id; uint64 _e3p:1; int64 _ahang:AS_MAX_READLEN_BITS+1;
  int64 _bhang:AS_MAX_READLEN_BITS+1; uint64 _evalue:AS_MAX_EVALUE_BITS;\<close>
\<close>

record ('h, 'e) BestEdgeOverlap =
  be_id :: uint32
  be_e3p :: bool
  be_ahang :: 'h
  be_bhang :: 'h
  be_evalue :: 'e

type_synonym ('h, 'e) edge = "('h word, 'e word) BestEdgeOverlap"

text \<open>\<open>clear()\<close>\<close>

definition be_clear :: "('h::len, 'e::len) edge \<Rightarrow> ('h, 'e) edge" where
  "be_clear this =
     this\<lparr> be_id := 0, be_e3p := False, be_ahang := 0, be_bhang := 0, be_evalue := 0 \<rparr>"

text \<open>
  The hang test of \<open>set(BAToverlap const &)\<close>: signed comparisons of the two hangs
  with zero.
\<close>

definition hangs_contained :: "('h::len, 'e::len) olap \<Rightarrow> bool" where
  "hangs_contained ovl =
     ((sint (a_hang ovl) \<le> 0 \<and> sint (b_hang ovl) \<ge> 0) \<or>
      (sint (a_hang ovl) \<ge> 0 \<and> sint (b_hang ovl) \<le> 0))"

text \<open>\<open>set(BAToverlap const &olap)\<close>, with \<open>olap.BEndIs3prime()\<close> as \<open>BEndIs3prime olap\<close>.\<close>

definition be_set ::
  "(('h::len, 'e::len) olap \<Rightarrow> bool) \<Rightarrow> ('h, 'e) edge \<Rightarrow> ('h, 'e) olap \<Rightarrow> ('h, 'e) edge"
where
  "be_set BEndIs3prime this ovl =
     this\<lparr> be_id := b_iid ovl,
           be_e3p := (if hangs_contained ovl then flipped ovl else BEndIs3prime ovl),
           be_ahang := a_hang ovl,
           be_bhang := b_hang ovl,
           be_evalue := evalue ovl \<rparr>"

text \<open>\<open>set(uint32 id, bool e3p, int32 ahang, int32 bhang, uint32 evalue)\<close>\<close>

definition be_set_fields ::
  "('h::len, 'e::len) edge \<Rightarrow> uint32 \<Rightarrow> bool \<Rightarrow> int32 \<Rightarrow> int32 \<Rightarrow> uint32 \<Rightarrow> ('h, 'e) edge"
where
  "be_set_fields this rid e3p ahang bhang ev =
     this\<lparr> be_id := rid, be_e3p := e3p, be_ahang := scast ahang, be_bhang := scast bhang,
           be_evalue := ucast ev \<rparr>"

text \<open>The constructors \<open>BestEdgeOverlap()\<close> and \<open>BestEdgeOverlap(BAToverlap const &)\<close>.\<close>

definition be_default :: "('h::len, 'e::len) edge" where
  "be_default =
     be_clear \<lparr> be_id = 0, be_e3p = False, be_ahang = 0, be_bhang = 0, be_evalue = 0 \<rparr>"

definition be_of ::
  "(('h::len, 'e::len) olap \<Rightarrow> bool) \<Rightarrow> ('h, 'e) olap \<Rightarrow> ('h, 'e) edge"
where
  "be_of BEndIs3prime ovl = be_set BEndIs3prime be_default ovl"

text \<open>The accessors; \<open>ahang()\<close> and \<open>bhang()\<close> return \<open>int32\<close>, \<open>evalue()\<close> \<open>uint32\<close>.\<close>

definition be_readId :: "('h::len, 'e::len) edge \<Rightarrow> uint32" where
  "be_readId e = be_id e"

definition be_read3p :: "('h::len, 'e::len) edge \<Rightarrow> bool" where
  "be_read3p e = (be_e3p e = True)"

definition be_read5p :: "('h::len, 'e::len) edge \<Rightarrow> bool" where
  "be_read5p e = (be_e3p e = False)"

definition ahang :: "('h::len, 'e::len) edge \<Rightarrow> int32" where
  "ahang e = scast (be_ahang e)"

definition bhang :: "('h::len, 'e::len) edge \<Rightarrow> int32" where
  "bhang e = scast (be_bhang e)"

definition evalue_of :: "('h::len, 'e::len) edge \<Rightarrow> uint32" where
  "evalue_of e = ucast (be_evalue e)"

text \<open>
  \<open>erate()\<close>: \<open>AS_OVS_decodeEvalue\<close> is not among the sources and is a parameter; a
  \<open>double\<close> is a real number here.
\<close>

definition erate :: "('e::len word \<Rightarrow> real) \<Rightarrow> ('h::len, 'e) edge \<Rightarrow> real" where
  "erate AS_OVS_decodeEvalue e = AS_OVS_decodeEvalue (be_evalue e)"

subsection \<open>The width check of the packed record\<close>








subsection \<open>BestOverlaps and BestScores\<close>

record ('h, 'e) BestOverlaps =
  best5 :: "('h, 'e) BestEdgeOverlap"
  best3 :: "('h, 'e) BestEdgeOverlap"
  isC :: uint32

type_synonym ('h, 'e) overlaps = "('h word, 'e word) BestOverlaps"

record BestScores =
  sc_best5score :: uint64
  sc_best3score :: uint64
  sc_isC :: uint32

text \<open>\<open>BestScores()\<close>\<close>

definition BestScores_default :: BestScores where
  "BestScores_default = \<lparr> sc_best5score = 0, sc_best3score = 0, sc_isC = 0 \<rparr>"

text \<open>
  \<open>BestOverlaps\<close> has no constructor of its own. The object that
  \<open>std::map::operator[]\<close> inserts for a new key is value-initialised: \<open>_isC\<close> is
  zero and both edges are built by \<open>BestEdgeOverlap()\<close>.
\<close>

definition BestOverlaps_default :: "('h::len, 'e::len) overlaps" where
  "BestOverlaps_default = \<lparr> best5 = be_default, best3 = be_default, isC = 0 \<rparr>"

subsection \<open>BestOverlapGraph: the state\<close>

text \<open>
  The data members of the class. \<open>_bestA\<close> and \<open>_scorA\<close> are pointers to arrays:
  \<open>None\<close> is the null pointer, \<open>Some xs\<close> an array of \<open>length xs\<close> elements.
  \<open>_restrict\<close> is a pointer to a set. The maps \<open>_bestM\<close> and \<open>_scorM\<close> are
  partial functions, the sets are sets.
\<close>

record ('h, 'e) BestOverlapGraph =
  bestA :: "('h, 'e) BestOverlaps list option"
  scorA :: "BestScores list option"
  mean :: real
  stddev :: real
  median :: real
  mad :: real
  nSuspicious :: uint32
  n1EdgeFiltered :: uint32
  n2EdgeFiltered :: uint32
  n1EdgeIncompatible :: uint32
  n2EdgeIncompatible :: uint32
  suspicious :: "uint32 set"
  singleton :: "uint32 set"
  spur :: "uint32 set"
  bestM :: "uint32 \<rightharpoonup> ('h, 'e) BestOverlaps"
  scorM :: "uint32 \<rightharpoonup> BestScores"
  restrict :: "uint32 set option"
  restrictEnabled :: bool
  erateGraph :: real
  deviationGraph :: real
  errorLimit :: real

type_synonym ('h, 'e) graph = "('h word, 'e word) BestOverlapGraph"

text \<open>
  What C++ leaves undefined is a fault of the model: an index past the end of an
  array, and a subscript on a null pointer.
\<close>

datatype fault = OutOfBounds | NullPointer

definition array_at :: "'a list \<Rightarrow> uint32 \<Rightarrow> fault + 'a" where
  "array_at arr i = (if unat i < length arr then Inr (arr ! unat i) else Inl OutOfBounds)"

definition array_put :: "'a list \<Rightarrow> uint32 \<Rightarrow> 'a \<Rightarrow> fault + 'a list" where
  "array_put arr i v = (if unat i < length arr then Inr (arr[unat i := v]) else Inl OutOfBounds)"

text \<open>
  \<open>std::map::operator[]\<close>: the value at the key, after inserting the
  value-initialised object \<open>dflt\<close> when the key is new.
\<close>

definition map_subscript :: "('k \<rightharpoonup> 'v) \<Rightarrow> 'v \<Rightarrow> 'k \<Rightarrow> 'v \<times> ('k \<rightharpoonup> 'v)" where
  "map_subscript m dflt k = (case m k of Some v \<Rightarrow> (v, m) | None \<Rightarrow> (dflt, m(k \<mapsto> dflt)))"

subsection \<open>BestOverlapGraph: the inline member functions\<close>

text \<open>
  \<open>getBestEdgeOverlap(readid, threePrime)\<close> returns a pointer into the storage; the
  model returns the record it points at, and the graph, which the map's subscript
  may have changed.
\<close>

definition getBestEdgeOverlap ::
  "('h::len, 'e::len) graph \<Rightarrow> uint32 \<Rightarrow> bool \<Rightarrow> fault + (('h, 'e) edge \<times> ('h, 'e) graph)"
where
  "getBestEdgeOverlap g readid threePrime =
     (case bestA g of
        Some arr \<Rightarrow>
          (case array_at arr readid of
             Inl f \<Rightarrow> Inl f
           | Inr ent \<Rightarrow> Inr (if threePrime then best3 ent else best5 ent, g))
      | None \<Rightarrow>
          (case map_subscript (bestM g) BestOverlaps_default readid of
             (ent, m) \<Rightarrow> Inr (if threePrime then best3 ent else best5 ent, g\<lparr> bestM := m \<rparr>)))"

text \<open>\<open>followOverlap(end)\<close>\<close>

definition followOverlap ::
  "('h::len, 'e::len) graph \<Rightarrow> ReadEnd \<Rightarrow> fault + (ReadEnd \<times> ('h, 'e) graph)"
where
  "followOverlap g e =
     (if re_readId e = 0 then Inr (ReadEnd_default, g)
      else
        (case getBestEdgeOverlap g (re_readId e) (re_read3p e) of
           Inl f \<Rightarrow> Inl f
         | Inr (edge, g') \<Rightarrow> Inr (ReadEnd_of (be_readId edge) (\<not> be_read3p edge), g')))"

text \<open>\<open>setContained(readid)\<close>: \<open>_isC = true\<close> stores 1.\<close>

definition setContained :: "('h::len, 'e::len) graph \<Rightarrow> uint32 \<Rightarrow> fault + ('h, 'e) graph" where
  "setContained g readid =
     (case bestA g of
        Some arr \<Rightarrow>
          (case array_at arr readid of
             Inl f \<Rightarrow> Inl f
           | Inr ent \<Rightarrow> Inr (g\<lparr> bestA := Some (arr[unat readid := ent\<lparr> isC := 1 \<rparr>]) \<rparr>))
      | None \<Rightarrow>
          (case map_subscript (bestM g) BestOverlaps_default readid of
             (ent, m) \<Rightarrow> Inr (g\<lparr> bestM := m(readid \<mapsto> ent\<lparr> isC := 1 \<rparr>) \<rparr>)))"

text \<open>\<open>isContained(readid)\<close>: the \<open>uint32\<close> is returned as a \<open>bool\<close>.\<close>

definition isContained ::
  "('h::len, 'e::len) graph \<Rightarrow> uint32 \<Rightarrow> fault + (bool \<times> ('h, 'e) graph)"
where
  "isContained g readid =
     (case bestA g of
        Some arr \<Rightarrow>
          (case array_at arr readid of
             Inl f \<Rightarrow> Inl f
           | Inr ent \<Rightarrow> Inr (isC ent \<noteq> 0, g))
      | None \<Rightarrow>
          (case map_subscript (bestM g) BestOverlaps_default readid of
             (ent, m) \<Rightarrow> Inr (isC ent \<noteq> 0, g\<lparr> bestM := m \<rparr>)))"

text \<open>\<open>isSuspicious(readid)\<close>: \<open>std::set::count\<close> reads the set and changes nothing.\<close>

definition isSuspicious ::
  "('h::len, 'e::len) graph \<Rightarrow> uint32 \<Rightarrow> bool \<times> ('h, 'e) graph"
where
  "isSuspicious g readid = (readid \<in> suspicious g, g)"

text \<open>
  \<open>best5score(id)\<close> and \<open>best3score(id)\<close> return a reference into the score
  storage, chosen by \<open>_restrictEnabled\<close>; \<open>_scorA\<close> is subscripted without a test
  for the null pointer. The model returns the value referred to and the graph.
\<close>

definition best5score ::
  "('h::len, 'e::len) graph \<Rightarrow> uint32 \<Rightarrow> fault + (uint64 \<times> ('h, 'e) graph)"
where
  "best5score g rid =
     (if restrictEnabled g = False then
        (case scorA g of
           None \<Rightarrow> Inl NullPointer
         | Some sc \<Rightarrow>
             (case array_at sc rid of
                Inl f \<Rightarrow> Inl f
              | Inr s \<Rightarrow> Inr (sc_best5score s, g)))
      else
        (case map_subscript (scorM g) BestScores_default rid of
           (s, m) \<Rightarrow> Inr (sc_best5score s, g\<lparr> scorM := m \<rparr>)))"

definition best3score ::
  "('h::len, 'e::len) graph \<Rightarrow> uint32 \<Rightarrow> fault + (uint64 \<times> ('h, 'e) graph)"
where
  "best3score g rid =
     (if restrictEnabled g = False then
        (case scorA g of
           None \<Rightarrow> Inl NullPointer
         | Some sc \<Rightarrow>
             (case array_at sc rid of
                Inl f \<Rightarrow> Inl f
              | Inr s \<Rightarrow> Inr (sc_best3score s, g)))
      else
        (case map_subscript (scorM g) BestScores_default rid of
           (s, m) \<Rightarrow> Inr (sc_best3score s, g\<lparr> scorM := m \<rparr>)))"

text \<open>
  A store through the pointer that \<open>getBestEdgeOverlap(readid, threePrime)\<close> returns,
  and a store through the reference that \<open>best5score(id)\<close> or \<open>best3score(id)\<close>
  returns: the same place is found, and the record or the score there is replaced.
\<close>

definition putBestEdge ::
  "('h::len, 'e::len) graph \<Rightarrow> uint32 \<Rightarrow> bool \<Rightarrow> ('h, 'e) edge \<Rightarrow> fault + ('h, 'e) graph"
where
  "putBestEdge g readid threePrime e =
     (case bestA g of
        Some arr \<Rightarrow>
          (case array_at arr readid of
             Inl f \<Rightarrow> Inl f
           | Inr ent \<Rightarrow>
               Inr (g\<lparr> bestA := Some (arr[unat readid :=
                      (if threePrime then ent\<lparr> best3 := e \<rparr> else ent\<lparr> best5 := e \<rparr>)]) \<rparr>))
      | None \<Rightarrow>
          (case map_subscript (bestM g) BestOverlaps_default readid of
             (ent, m) \<Rightarrow>
               Inr (g\<lparr> bestM := m(readid \<mapsto>
                      (if threePrime then ent\<lparr> best3 := e \<rparr> else ent\<lparr> best5 := e \<rparr>)) \<rparr>)))"

definition putBestScore ::
  "('h::len, 'e::len) graph \<Rightarrow> uint32 \<Rightarrow> bool \<Rightarrow> uint64 \<Rightarrow> fault + ('h, 'e) graph"
where
  "putBestScore g rid threePrime v =
     (if restrictEnabled g = False then
        (case scorA g of
           None \<Rightarrow> Inl NullPointer
         | Some sc \<Rightarrow>
             (case array_at sc rid of
                Inl f \<Rightarrow> Inl f
              | Inr s \<Rightarrow>
                  Inr (g\<lparr> scorA := Some (sc[unat rid :=
                         (if threePrime then s\<lparr> sc_best3score := v \<rparr>
                          else s\<lparr> sc_best5score := v \<rparr>)]) \<rparr>)))
      else
        (case map_subscript (scorM g) BestScores_default rid of
           (s, m) \<Rightarrow>
             Inr (g\<lparr> scorM := m(rid \<mapsto>
                    (if threePrime then s\<lparr> sc_best3score := v \<rparr>
                     else s\<lparr> sc_best5score := v \<rparr>)) \<rparr>)))"

section \<open>The construction, which the header only declares\<close>

text \<open>
  The constructor, \<open>findEdges\<close>, \<open>scoreEdge\<close>, \<open>scoreContainment\<close>,
  \<open>scoreOverlap\<close> and the passes \<open>removeHighErrorBestEdges\<close>,
  \<open>removeContainedDovetails\<close>, \<open>removeLopsidedEdges\<close>, \<open>removeSpurs\<close> and
  \<open>removeSuspicious\<close> are declared in the header and defined in a file that is not
  among the sources. The definitions of this section follow the specification. What
  the specification leaves open is a field of the record \<open>unspecified\<close>, so that a
  theorem about the construction holds for every choice of it.
\<close>

text \<open>
  Modelled from the spec: the parts that neither the sources nor the specification
  define. \<open>BEndIs3prime_of\<close> is the member function \<open>BEndIs3prime()\<close> of
  \<open>BAToverlap\<close> that \<open>set\<close> calls; \<open>decodeEvalue_of\<close> is \<open>AS_OVS_decodeEvalue\<close>,
  which decodes an error code into an error rate; \<open>scoreOverlap_of\<close> is
  \<open>scoreOverlap\<close>, the score of an overlap (section 9: the formula is an open
  question); \<open>validRates_of X erateGraph deviationGraph\<close> tells whether the two
  configured numbers are valid (section 7 names invalid values and does not define
  them); \<open>statistics_of X erateGraph deviationGraph rates\<close> is the mean, the
  standard deviation, the median, the median absolute deviation and the error-rate
  ceiling of section 4.2; \<open>inconsistent_of\<close> is the geometric inconsistency of
  section 4.4; \<open>lopsided_of X s5 s3\<close> tells whether two scores differ by more than
  the factor of section 4.5; \<open>clearSpurs_of\<close> is whether the removal of section 4.6
  is enabled.
\<close>

record ('o, 'c, 'b) unspecified =
  BEndIs3prime_of :: "'o \<Rightarrow> bool"
  decodeEvalue_of :: "'c \<Rightarrow> real"
  scoreOverlap_of :: "'o \<Rightarrow> uint64"
  validRates_of :: "real \<Rightarrow> real \<Rightarrow> bool"
  statistics_of :: "real \<Rightarrow> real \<Rightarrow> real list \<Rightarrow> real \<times> real \<times> real \<times> real \<times> real"
  inconsistent_of :: "'b \<Rightarrow> bool"
  lopsided_of :: "uint64 \<Rightarrow> uint64 \<Rightarrow> bool"
  clearSpurs_of :: bool

type_synonym ('h, 'e) parts = "(('h, 'e) olap, 'e word, ('h, 'e) edge) unspecified"

text \<open>
  The arguments of the constructor, as the header declares them: \<open>erateGraph\<close>,
  \<open>deviationGraph\<close>, \<open>prefix\<close> and the four flags.
\<close>

record config =
  cfg_erateGraph :: real
  cfg_deviationGraph :: real
  cfg_prefix :: string
  filterSuspicious :: bool
  filterHighError :: bool
  filterLopsided :: bool
  filterSpur :: bool

subsection \<open>Scoring and winner retention\<close>

text \<open>
  Modelled from the spec: the contained read of a containment (sections 3 and 4.1).
  With \<open>a_hang \<le> 0\<close> and \<open>b_hang \<ge> 0\<close> read B starts before read A and ends after
  it, and the contained read is read A; in the other case it is read B.
\<close>

definition containedRead :: "('h::len, 'e::len) olap \<Rightarrow> uint32" where
  "containedRead ovl =
     (if sint (a_hang ovl) \<le> 0 \<and> 0 \<le> sint (b_hang ovl) then a_iid ovl else b_iid ovl)"

text \<open>
  Modelled from the spec: \<open>scoreContainment\<close> (section 4.1): the containment is
  tracked with \<open>setContained\<close> on the contained read; no best edge and no score
  changes.
\<close>

definition scoreContainment ::
  "('h::len, 'e::len) graph \<Rightarrow> ('h, 'e) olap \<Rightarrow> fault + ('h, 'e) graph"
where
  "scoreContainment g ovl = setContained g (containedRead ovl)"

text \<open>
  Modelled from the spec: the end of read A that a dovetail overlap touches
  (section 4.1: \<open>a_hang < 0\<close> the 5' end, \<open>a_hang > 0\<close> the 3' end). An overlap
  with \<open>a_hang = 0\<close> has the signs of a containment, so the rule decides every
  dovetail and no overlap is refused for its geometry.
\<close>

definition AEndIs3prime :: "('h::len, 'e::len) olap \<Rightarrow> bool" where
  "AEndIs3prime ovl = (0 < sint (a_hang ovl))"

text \<open>
  Modelled from the spec: the last key of the order that breaks ties (section 4.1
  names the error rate and the target read and accepts any total order): the rest of
  the record that \<open>set\<close> stores, compared field by field in the order of the
  record, the end bit, the two hangs as signed numbers and the error code.
\<close>

definition edgeRest :: "('h::len, 'e::len) edge \<Rightarrow> bool \<times> int \<times> int \<times> nat" where
  "edgeRest e = (be_e3p e, sint (be_ahang e), sint (be_bhang e), unat (be_evalue e))"

text \<open>
  Modelled from the spec: when an overlap replaces the retained edge (section 4.1).
  It does when its score strictly exceeds the retained score; on equal scores the
  lower error rate wins, on equal error rates the lower target read, and on equal
  target reads the record that comes first in the order of \<open>edgeRest\<close>, so that
  the order is total on what is stored.
\<close>

definition wins ::
  "('h::len, 'e::len) parts \<Rightarrow> ('h, 'e) olap \<Rightarrow> ('h, 'e) edge \<Rightarrow> uint64 \<Rightarrow> bool"
where
  "wins X ovl best score =
     (score < scoreOverlap_of X ovl \<or>
      (scoreOverlap_of X ovl = score \<and>
       (decodeEvalue_of X (evalue ovl) < erate (decodeEvalue_of X) best \<or>
        (decodeEvalue_of X (evalue ovl) = erate (decodeEvalue_of X) best \<and>
         (b_iid ovl < be_readId best \<or>
          (b_iid ovl = be_readId best \<and>
           edgeRest (be_of (BEndIs3prime_of X) ovl) < edgeRest best))))))"

text \<open>
  Modelled from the spec: \<open>scoreEdge\<close> (section 4.1). The retained edge and score
  of the end of read A that the overlap touches are read with the accessors of the
  header; when the overlap wins, \<open>set\<close> stores it in the edge and its score is stored
  in the accumulator. One end of one read changes and nothing else.
\<close>

definition scoreEdge ::
  "('h::len, 'e::len) parts \<Rightarrow> ('h, 'e) graph \<Rightarrow> ('h, 'e) olap \<Rightarrow> fault + ('h, 'e) graph"
where
  "scoreEdge X g ovl =
     (case getBestEdgeOverlap g (a_iid ovl) (AEndIs3prime ovl) of
        Inl f \<Rightarrow> Inl f
      | Inr (best, g1) \<Rightarrow>
          (case (if AEndIs3prime ovl then best3score g1 (a_iid ovl)
                 else best5score g1 (a_iid ovl)) of
             Inl f \<Rightarrow> Inl f
           | Inr (score, g2) \<Rightarrow>
               if wins X ovl best score then
                 (case putBestEdge g2 (a_iid ovl) (AEndIs3prime ovl)
                         (be_set (BEndIs3prime_of X) best ovl) of
                    Inl f \<Rightarrow> Inl f
                  | Inr g3 \<Rightarrow>
                      putBestScore g3 (a_iid ovl) (AEndIs3prime ovl) (scoreOverlap_of X ovl))
               else Inr g2))"

text \<open>
  Modelled from the spec: one overlap of the stream (section 4.1): a containment by
  the hang signs of section 3 goes to \<open>scoreContainment\<close>, a dovetail to
  \<open>scoreEdge\<close>.
\<close>

definition scoreOne ::
  "('h::len, 'e::len) parts \<Rightarrow> ('h, 'e) olap \<Rightarrow> fault + ('h, 'e) graph \<Rightarrow> fault + ('h, 'e) graph"
where
  "scoreOne X ovl r =
     (case r of
        Inl f \<Rightarrow> Inl f
      | Inr g \<Rightarrow> if hangs_contained ovl then scoreContainment g ovl else scoreEdge X g ovl)"

text \<open>
  Modelled from the spec: \<open>findEdges\<close>, the scoring pass over the overlaps in the
  order of their delivery; it stops at the first fault.
\<close>

definition findEdges ::
  "('h::len, 'e::len) parts \<Rightarrow> ('h, 'e) graph \<Rightarrow> ('h, 'e) olap list \<Rightarrow> fault + ('h, 'e) graph"
where
  "findEdges X g olaps = fold (scoreOne X) olaps (Inr g)"

subsection \<open>The statistics pass\<close>

text \<open>
  Modelled from the spec: an end has a retained edge when its record is not in the
  zero state, which sections 4.3 and 4.7 call "no edge".
\<close>

definition retained :: "('h::len, 'e::len) edge \<Rightarrow> bool" where
  "retained e = (e \<noteq> be_default)"

text \<open>
  Modelled from the spec: the error rates of the retained best edges, 5' and 3',
  across all reads (section 4.2), in the order of the array. The passes run on the
  array that the constructor allocates; the header's comment says that the restricted
  mode is unused and has no constructor, and with a null \<open>_bestA\<close> a pass finds no
  read.
\<close>

definition retainedRates :: "('h::len, 'e::len) parts \<Rightarrow> ('h, 'e) graph \<Rightarrow> real list" where
  "retainedRates X g =
     (case bestA g of
        None \<Rightarrow> []
      | Some arr \<Rightarrow>
          concat (map (\<lambda>ent. map (erate (decodeEvalue_of X))
                                  (filter retained [best5 ent, best3 ent])) arr))"

text \<open>
  Modelled from the spec: the statistics pass (section 4.2). It reads the storage and
  writes the five statistics fields.
\<close>

definition statisticsPass :: "('h::len, 'e::len) parts \<Rightarrow> ('h, 'e) graph \<Rightarrow> ('h, 'e) graph" where
  "statisticsPass X g =
     (case statistics_of X (erateGraph g) (deviationGraph g) (retainedRates X g) of
        (mn, sd, med, md, ceiling_rate) \<Rightarrow>
          g\<lparr> mean := mn, stddev := sd, median := med, mad := md,
             errorLimit := ceiling_rate \<rparr>)"

subsection \<open>The filter passes\<close>

text \<open>
  Modelled from the spec: a pass clears an edge (resets it to the zero state, section
  4.3) when its condition holds, and leaves it otherwise.
\<close>

definition clearIf :: "bool \<Rightarrow> ('h::len, 'e::len) edge \<Rightarrow> ('h, 'e) edge" where
  "clearIf c e = (if c then be_clear e else e)"

text \<open>
  Modelled from the spec: the edges that \<open>removeHighErrorBestEdges\<close> clears
  (section 4.3): the retained edges whose error rate exceeds the derived ceiling and
  exceeds \<open>erateGraph\<close>.
\<close>

definition isHighError ::
  "('h::len, 'e::len) parts \<Rightarrow> ('h, 'e) graph \<Rightarrow> ('h, 'e) edge \<Rightarrow> bool"
where
  "isHighError X g e =
     (retained e \<and> errorLimit g < erate (decodeEvalue_of X) e \<and>
      erateGraph g < erate (decodeEvalue_of X) e)"

text \<open>
  Modelled from the spec: what \<open>removeHighErrorBestEdges\<close> does to the entry of one
  read (section 4.3).
\<close>

definition highErrorEntry ::
  "('h::len, 'e::len) parts \<Rightarrow> ('h, 'e) graph \<Rightarrow> ('h, 'e) overlaps \<Rightarrow> ('h, 'e) overlaps"
where
  "highErrorEntry X g ent =
     ent\<lparr> best5 := clearIf (isHighError X g (best5 ent)) (best5 ent),
          best3 := clearIf (isHighError X g (best3 ent)) (best3 ent) \<rparr>"

text \<open>
  Modelled from the spec: the number of ends of one read that
  \<open>removeHighErrorBestEdges\<close> clears, which the two counters of section 4.3
  distinguish.
\<close>

definition nHighError ::
  "('h::len, 'e::len) parts \<Rightarrow> ('h, 'e) graph \<Rightarrow> ('h, 'e) overlaps \<Rightarrow> nat"
where
  "nHighError X g ent =
     (if isHighError X g (best5 ent) then 1 else 0) +
     (if isHighError X g (best3 ent) then 1 else 0)"

text \<open>
  Modelled from the spec: \<open>removeHighErrorBestEdges\<close> (section 4.3). Every entry is
  filtered; a read with one end cleared is counted in \<open>_n1EdgeFiltered\<close>, a read
  with both ends cleared in \<open>_n2EdgeFiltered\<close>.
\<close>

definition removeHighErrorBestEdges ::
  "('h::len, 'e::len) parts \<Rightarrow> ('h, 'e) graph \<Rightarrow> ('h, 'e) graph"
where
  "removeHighErrorBestEdges X g =
     (case bestA g of
        None \<Rightarrow> g
      | Some arr \<Rightarrow>
          g\<lparr> bestA := Some (map (highErrorEntry X g) arr),
             n1EdgeFiltered :=
               n1EdgeFiltered g + of_nat (length (filter (\<lambda>ent. nHighError X g ent = 1) arr)),
             n2EdgeFiltered :=
               n2EdgeFiltered g + of_nat (length (filter (\<lambda>ent. nHighError X g ent = 2) arr)) \<rparr>)"

text \<open>
  Modelled from the spec: an edge is a dovetail edge when its hangs do not have the
  signs of a containment (section 3).
\<close>

definition be_dovetail :: "('h::len, 'e::len) edge \<Rightarrow> bool" where
  "be_dovetail e =
     (\<not> ((sint (be_ahang e) \<le> 0 \<and> 0 \<le> sint (be_bhang e)) \<or>
         (0 \<le> sint (be_ahang e) \<and> sint (be_bhang e) \<le> 0)))"

text \<open>
  Modelled from the spec: the edge that \<open>removeContainedDovetails\<close> clears on a
  contained read (section 4.4): retained, dovetail, and inconsistent with the
  containment.
\<close>

definition containedDovetail :: "('h::len, 'e::len) parts \<Rightarrow> ('h, 'e) edge \<Rightarrow> bool" where
  "containedDovetail X e = (retained e \<and> be_dovetail e \<and> inconsistent_of X e)"

text \<open>
  Modelled from the spec: what \<open>removeContainedDovetails\<close> does to the entry of one
  read: the edges are cleared on a read whose containment flag is set, and the flag is
  not changed.
\<close>

definition containedEntry ::
  "('h::len, 'e::len) parts \<Rightarrow> ('h, 'e) overlaps \<Rightarrow> ('h, 'e) overlaps"
where
  "containedEntry X ent =
     (if isC ent \<noteq> 0 then
        ent\<lparr> best5 := clearIf (containedDovetail X (best5 ent)) (best5 ent),
             best3 := clearIf (containedDovetail X (best3 ent)) (best3 ent) \<rparr>
      else ent)"

text \<open>
  Modelled from the spec: \<open>removeContainedDovetails\<close> (section 4.4), over every
  entry.
\<close>

definition removeContainedDovetails ::
  "('h::len, 'e::len) parts \<Rightarrow> ('h, 'e) graph \<Rightarrow> ('h, 'e) graph"
where
  "removeContainedDovetails X g =
     (case bestA g of
        None \<Rightarrow> g
      | Some arr \<Rightarrow> g\<lparr> bestA := Some (map (containedEntry X) arr) \<rparr>)"

text \<open>
  Modelled from the spec: the two scores of a read that \<open>removeLopsidedEdges\<close>
  compares (section 4.5): those of its score accumulator, and zero where the array of
  scores has no element for the read.
\<close>

definition scoresOf :: "('h::len, 'e::len) graph \<Rightarrow> nat \<Rightarrow> BestScores" where
  "scoresOf g i =
     (case scorA g of
        None \<Rightarrow> BestScores_default
      | Some sc \<Rightarrow> if i < length sc then sc ! i else BestScores_default)"

text \<open>
  Modelled from the spec: what \<open>removeLopsidedEdges\<close> does to the entry of one read
  (section 4.5): when the two scores differ by more than the factor, the end with the
  lower score is cleared.
\<close>

definition lopsidedEntry ::
  "('h::len, 'e::len) parts \<Rightarrow> BestScores \<Rightarrow> ('h, 'e) overlaps \<Rightarrow> ('h, 'e) overlaps"
where
  "lopsidedEntry X s ent =
     (if lopsided_of X (sc_best5score s) (sc_best3score s) then
        (if sc_best5score s < sc_best3score s then ent\<lparr> best5 := be_clear (best5 ent) \<rparr>
         else if sc_best3score s < sc_best5score s then ent\<lparr> best3 := be_clear (best3 ent) \<rparr>
         else ent)
      else ent)"

text \<open>
  Modelled from the spec: \<open>removeLopsidedEdges\<close> (section 4.5), over every entry.
\<close>

definition removeLopsidedEdges ::
  "('h::len, 'e::len) parts \<Rightarrow> ('h, 'e) graph \<Rightarrow> ('h, 'e) graph"
where
  "removeLopsidedEdges X g =
     (case bestA g of
        None \<Rightarrow> g
      | Some arr \<Rightarrow>
          g\<lparr> bestA :=
               Some (map (\<lambda>i. lopsidedEntry X (scoresOf g i) (arr ! i)) [0..<length arr]) \<rparr>)"

text \<open>
  Modelled from the spec: a spur (section 4.6): a read with a retained edge at one end
  and none at the other.
\<close>

definition isSpur :: "('h::len, 'e::len) overlaps \<Rightarrow> bool" where
  "isSpur ent = (retained (best5 ent) \<noteq> retained (best3 ent))"

text \<open>
  Modelled from the spec: the removal of section 4.6 on the entry of one read: the
  remaining edge of a spur is cleared.
\<close>

definition spurEntry :: "('h::len, 'e::len) overlaps \<Rightarrow> ('h, 'e) overlaps" where
  "spurEntry ent =
     (if isSpur ent then
        (if retained (best5 ent) then ent\<lparr> best5 := be_clear (best5 ent) \<rparr>
         else ent\<lparr> best3 := be_clear (best3 ent) \<rparr>)
      else ent)"

text \<open>
  Modelled from the spec: \<open>removeSpurs\<close> (section 4.6). The identifier of every spur
  goes into the spur set, and the remaining edges are cleared if removal is enabled.
\<close>

definition removeSpurs ::
  "('h::len, 'e::len) parts \<Rightarrow> ('h, 'e) graph \<Rightarrow> ('h, 'e) graph"
where
  "removeSpurs X g =
     (case bestA g of
        None \<Rightarrow> g
      | Some arr \<Rightarrow>
          g\<lparr> spur :=
               spur g \<union> set (map word_of_nat (filter (\<lambda>i. isSpur (arr ! i)) [0..<length arr])),
             bestA := Some (if clearSpurs_of X then map spurEntry arr else arr) \<rparr>)"

text \<open>
  Modelled from the spec: an edge of read \<open>i\<close>, to the end \<open>e3p\<close> of a read B, is
  answered when the best edge of read B at that end points back to read \<open>i\<close>
  (section 4.6); a read B outside the storage has no edge.
\<close>

definition pointsBack ::
  "('h::len, 'e::len) overlaps list \<Rightarrow> nat \<Rightarrow> ('h, 'e) edge \<Rightarrow> bool"
where
  "pointsBack arr i e =
     (case array_at arr (be_readId e) of
        Inl f \<Rightarrow> False
      | Inr ent \<Rightarrow> be_readId (if be_read3p e then best3 ent else best5 ent) = word_of_nat i)"

text \<open>
  Modelled from the spec: a read whose retained edges are mutually inconsistent with
  its partners' (section 4.6): one of its retained edges is not answered.
\<close>

definition inconsistentRead :: "('h::len, 'e::len) overlaps list \<Rightarrow> nat \<Rightarrow> bool" where
  "inconsistentRead arr i =
     ((retained (best5 (arr ! i)) \<and> \<not> pointsBack arr i (best5 (arr ! i))) \<or>
      (retained (best3 (arr ! i)) \<and> \<not> pointsBack arr i (best3 (arr ! i))))"

text \<open>
  Modelled from the spec: \<open>removeSuspicious\<close> (section 4.6). The reads with an
  unanswered edge are flagged in the suspicious set and not edited.
\<close>

definition removeSuspicious :: "('h::len, 'e::len) graph \<Rightarrow> ('h, 'e) graph" where
  "removeSuspicious g =
     (case bestA g of
        None \<Rightarrow> g
      | Some arr \<Rightarrow>
          g\<lparr> suspicious :=
               suspicious g \<union>
               set (map word_of_nat (filter (inconsistentRead arr) [0..<length arr])) \<rparr>)"

text \<open>
  Modelled from the spec: the filter pass sequence (section 5): high-error, contained
  dovetails, lopsided, spurs, suspicious, each of the four optional passes under its
  flag.
\<close>

definition filterPasses ::
  "('h::len, 'e::len) parts \<Rightarrow> config \<Rightarrow> ('h, 'e) graph \<Rightarrow> ('h, 'e) graph"
where
  "filterPasses X cfg g =
     (let g1 = (if filterHighError cfg then removeHighErrorBestEdges X g else g);
          g2 = removeContainedDovetails X g1;
          g3 = (if filterLopsided cfg then removeLopsidedEdges X g2 else g2);
          g4 = (if filterSpur cfg then removeSpurs X g3 else g3)
      in (if filterSuspicious cfg then removeSuspicious g4 else g4))"

subsection \<open>The constructor\<close>

text \<open>
  Modelled from the spec: the storage that the constructor allocates for the full
  read universe (section 3): \<open>n\<close> zero-initialised per-read entries and score
  accumulators, empty maps and sets, zero statistics, and the two configured rates.
\<close>

definition allocated :: "config \<Rightarrow> nat \<Rightarrow> ('h::len, 'e::len) graph" where
  "allocated cfg n =
     \<lparr> bestA = Some (replicate n BestOverlaps_default),
       scorA = Some (replicate n BestScores_default),
       mean = 0, stddev = 0, median = 0, mad = 0,
       nSuspicious = 0, n1EdgeFiltered = 0, n2EdgeFiltered = 0, n1EdgeIncompatible = 0,
       n2EdgeIncompatible = 0, suspicious = {}, singleton = {}, spur = {},
       bestM = Map.empty, scorM = Map.empty, restrict = None, restrictEnabled = False,
       erateGraph = cfg_erateGraph cfg, deviationGraph = cfg_deviationGraph cfg,
       errorLimit = 0 \<rparr>"

text \<open>
  Modelled from the spec: the constructor (sections 5 and 7). Invalid rates are a
  fatal error before any overlap is scored; then the overlaps are scored, the
  statistics computed and the filter passes run. A fault of the scoring pass is a
  fault of the construction.
\<close>

text \<open>
  Modelled from the spec: how a construction fails (section 7): a fatal configuration
  error, or what C++ leaves undefined in the scoring pass.
\<close>

datatype construction_error = InvalidConfiguration | Undefined fault

definition BestOverlapGraph_new ::
  "('h::len, 'e::len) parts \<Rightarrow> config \<Rightarrow> nat \<Rightarrow> ('h, 'e) olap list \<Rightarrow>
     construction_error + ('h, 'e) graph"
where
  "BestOverlapGraph_new X cfg n olaps =
     (if \<not> validRates_of X (cfg_erateGraph cfg) (cfg_deviationGraph cfg) then
        Inl InvalidConfiguration
      else
        (case findEdges X (allocated cfg n) olaps of
           Inl f \<Rightarrow> Inl (Undefined f)
         | Inr g \<Rightarrow> Inr (filterPasses X cfg (statisticsPass X g))))"

subsection \<open>Relations between graphs\<close>

text \<open>
  The relations in which the properties of the filter passes are stated: an edge is
  kept or cleared; a per-read entry is tightened when its containment flag is the same
  and each of its edges is kept or cleared; a graph is a tightening of another when it
  has the same scores, ceiling and cutoff and its entries are tightenings, read by read.
\<close>

definition keptOrCleared :: "('h::len, 'e::len) edge \<Rightarrow> ('h, 'e) edge \<Rightarrow> bool" where
  "keptOrCleared e' e = (e' = e \<or> e' = be_default)"

definition tightensEntry :: "('h::len, 'e::len) overlaps \<Rightarrow> ('h, 'e) overlaps \<Rightarrow> bool" where
  "tightensEntry ent' ent =
     (isC ent' = isC ent \<and> keptOrCleared (best5 ent') (best5 ent) \<and>
      keptOrCleared (best3 ent') (best3 ent))"

definition tightens :: "('h::len, 'e::len) graph \<Rightarrow> ('h, 'e) graph \<Rightarrow> bool" where
  "tightens h g =
     (scorA h = scorA g \<and> errorLimit h = errorLimit g \<and> erateGraph h = erateGraph g \<and>
      (case bestA g of
         None \<Rightarrow> bestA h = None
       | Some arr \<Rightarrow>
           (case bestA h of
              None \<Rightarrow> False
            | Some arr' \<Rightarrow> list_all2 tightensEntry arr' arr)))"

subsection \<open>The scoring pass, read by read\<close>

text \<open>
  The read whose storage the scoring of an overlap writes: the contained read of a
  containment, read A of a dovetail.
\<close>

definition targetRead :: "('h::len, 'e::len) olap \<Rightarrow> uint32" where
  "targetRead ovl = (if hangs_contained ovl then containedRead ovl else a_iid ovl)"

text \<open>
  The edge and the score of one end of a read, given its entry and its score
  accumulator, and the entry and accumulator with a new edge and score at that end.
\<close>

definition edgeAt :: "bool \<Rightarrow> ('h::len, 'e::len) overlaps \<times> BestScores \<Rightarrow> ('h, 'e) edge" where
  "edgeAt t es = (if t then best3 (fst es) else best5 (fst es))"

definition scoreAt :: "bool \<Rightarrow> ('h::len, 'e::len) overlaps \<times> BestScores \<Rightarrow> uint64" where
  "scoreAt t es = (if t then sc_best3score (snd es) else sc_best5score (snd es))"

definition putAt ::
  "bool \<Rightarrow> ('h::len, 'e::len) overlaps \<times> BestScores \<Rightarrow> ('h, 'e) edge \<Rightarrow> uint64 \<Rightarrow>
     ('h, 'e) overlaps \<times> BestScores"
where
  "putAt t es e v =
     (if t then ((fst es)\<lparr> best3 := e \<rparr>, (snd es)\<lparr> sc_best3score := v \<rparr>)
      else ((fst es)\<lparr> best5 := e \<rparr>, (snd es)\<lparr> sc_best5score := v \<rparr>))"

text \<open>
  What the scoring of one overlap does to the entry and the score accumulator of the
  read with index \<open>i\<close>; \<open>scoreOne\<close> on a graph with arrays does this to every read
  (lemma \<open>scoreOne_dense\<close>).
\<close>

definition slotStep ::
  "('h::len, 'e::len) parts \<Rightarrow> nat \<Rightarrow> ('h, 'e) olap \<Rightarrow>
     ('h, 'e) overlaps \<times> BestScores \<Rightarrow> ('h, 'e) overlaps \<times> BestScores"
where
  "slotStep X i ovl es =
     (if unat (targetRead ovl) \<noteq> i then es
      else if hangs_contained ovl then ((fst es)\<lparr> isC := 1 \<rparr>, snd es)
      else if wins X ovl (edgeAt (AEndIs3prime ovl) es) (scoreAt (AEndIs3prime ovl) es) then
        putAt (AEndIs3prime ovl) es
          (be_set (BEndIs3prime_of X) (edgeAt (AEndIs3prime ovl) es) ovl) (scoreOverlap_of X ovl)
      else es)"

text \<open>
  A graph is dense with \<open>n\<close> reads when both arrays are allocated with \<open>n\<close>
  elements and the restricted mode is off. \<open>slotsOf g i\<close> is the entry and the score
  accumulator of read \<open>i\<close>, and \<open>withSlots g n f\<close> is the graph \<open>g\<close> with the arrays
  of the \<open>n\<close> entries and accumulators \<open>f i\<close>.
\<close>

definition dense :: "('h::len, 'e::len) graph \<Rightarrow> nat \<Rightarrow> bool" where
  "dense g n =
     (restrictEnabled g = False \<and>
      (case bestA g of
         None \<Rightarrow> False
       | Some arr \<Rightarrow>
           (case scorA g of
              None \<Rightarrow> False
            | Some sc \<Rightarrow> length arr = n \<and> length sc = n)))"

definition slotsOf :: "('h::len, 'e::len) graph \<Rightarrow> nat \<Rightarrow> ('h, 'e) overlaps \<times> BestScores" where
  "slotsOf g i =
     ((case bestA g of None \<Rightarrow> BestOverlaps_default | Some arr \<Rightarrow> arr ! i),
      (case scorA g of None \<Rightarrow> BestScores_default | Some sc \<Rightarrow> sc ! i))"

definition withSlots ::
  "('h::len, 'e::len) graph \<Rightarrow> nat \<Rightarrow> (nat \<Rightarrow> ('h, 'e) overlaps \<times> BestScores) \<Rightarrow> ('h, 'e) graph"
where
  "withSlots g n f =
     g\<lparr> bestA := Some (map (\<lambda>i. fst (f i)) [0..<n]),
        scorA := Some (map (\<lambda>i. snd (f i)) [0..<n]) \<rparr>"

text \<open>
  What the filter pass sequence does to the entry of read \<open>i\<close> of a graph \<open>g\<close> with
  arrays (lemma \<open>filterPasses_entries\<close>): the four passes that edit entries, in
  their order, each under its flag.
\<close>

definition filteredEntry ::
  "('h::len, 'e::len) parts \<Rightarrow> config \<Rightarrow> ('h, 'e) graph \<Rightarrow> nat \<Rightarrow> ('h, 'e) overlaps \<Rightarrow>
     ('h, 'e) overlaps"
where
  "filteredEntry X cfg g i ent =
     (let e1 = (if filterHighError cfg then highErrorEntry X g ent else ent);
          e2 = containedEntry X e1;
          e3 = (if filterLopsided cfg then lopsidedEntry X (scoresOf g i) e2 else e2)
      in (if filterSpur cfg \<and> clearSpurs_of X then spurEntry e3 else e3))"

text \<open>
  The graph after the scoring pass of a construction in which every overlap is in
  range (lemma \<open>findEdges_allocated\<close>).
\<close>

definition scored ::
  "('h::len, 'e::len) parts \<Rightarrow> config \<Rightarrow> nat \<Rightarrow> ('h, 'e) olap list \<Rightarrow> ('h, 'e) graph"
where
  "scored X cfg n olaps =
     withSlots (allocated cfg n) n
       (\<lambda>i. fold (slotStep X i) olaps (BestOverlaps_default, BestScores_default))"

subsection \<open>States used as examples\<close>

text \<open>
  A graph object with null array pointers, empty maps and sets and zero numbers, and
  graphs built from it. The examples fix 22 bits for a hang and 12 bits for an error
  code.
\<close>

definition graph0 :: "('h::len, 'e::len) graph" where
  "graph0 =
     \<lparr> bestA = None, scorA = None, mean = 0, stddev = 0, median = 0, mad = 0,
       nSuspicious = 0, n1EdgeFiltered = 0, n2EdgeFiltered = 0, n1EdgeIncompatible = 0,
       n2EdgeIncompatible = 0, suspicious = {}, singleton = {}, spur = {},
       bestM = Map.empty, scorM = Map.empty, restrict = None, restrictEnabled = False,
       erateGraph = 0, deviationGraph = 0, errorLimit = 0 \<rparr>"

text \<open>A dense graph of two reads; the 5' edge of read 1 goes to the 3' end of read 2.\<close>

definition ex_dense :: "(22, 12) graph" where
  "ex_dense =
     graph0\<lparr> bestA := Some [BestOverlaps_default,
       BestOverlaps_default\<lparr> best5 := be_set_fields be_default 2 True 0 0 0 \<rparr>] \<rparr>"

text \<open>A dense graph of two reads; the 5' edge of read 1 names the read \<open>2^31\<close>.\<close>

definition ex_wide :: "(22, 12) graph" where
  "ex_wide =
     graph0\<lparr> bestA := Some [BestOverlaps_default,
       BestOverlaps_default\<lparr> best5 := be_set_fields be_default 0x80000000 True 0 0 0 \<rparr>] \<rparr>"

text \<open>A sparse graph with no entry.\<close>

definition ex_sparse :: "(22, 12) graph" where
  "ex_sparse = graph0"

text \<open>
  A choice of the unspecified parts for the examples: the B end is the 3' end when
  the overlap is on the 5' end of A and not flipped, or on the 3' end of A and
  flipped; an error code is a rate in units of 1/10000; the score grows as the hang
  of A shrinks and as the error code shrinks; rates are valid between 0 and 1; the
  ceiling is the configured cutoff; every dovetail edge of a contained read is
  inconsistent with the containment; scores are lopsided when one is more than twice
  the other; spurs are removed.
\<close>

definition ex_parts :: "(22, 12) parts" where
  "ex_parts =
     \<lparr> BEndIs3prime_of =
         (\<lambda>ovl. (sint (a_hang ovl) < 0 \<and> \<not> flipped ovl) \<or> (0 < sint (a_hang ovl) \<and> flipped ovl)),
       decodeEvalue_of = (\<lambda>c. real (unat c) / 10000),
       scoreOverlap_of =
         (\<lambda>ovl. word_of_int ((2097152 - \<bar>sint (a_hang ovl)\<bar>) * 4096 + (4095 - uint (evalue ovl)))),
       validRates_of = (\<lambda>eg dg. 0 \<le> eg \<and> eg \<le> 1 \<and> 0 \<le> dg),
       statistics_of = (\<lambda>eg dg rates. (0, 0, 0, 0, eg)),
       inconsistent_of = (\<lambda>e. True),
       lopsided_of = (\<lambda>s5 s3. 2 * unat s5 < unat s3 \<or> 2 * unat s3 < unat s5),
       clearSpurs_of = True \<rparr>"

text \<open>Constructor arguments: a cutoff of 5 percent, all four optional passes on.\<close>

definition ex_cfg :: config where
  "ex_cfg =
     \<lparr> cfg_erateGraph = 1 / 20, cfg_deviationGraph = 6, cfg_prefix = ''asm'',
       filterSuspicious = True, filterHighError = True, filterLopsided = True,
       filterSpur = True \<rparr>"

text \<open>The same with the spur pass off.\<close>

definition ex_cfg_nospur :: config where
  "ex_cfg_nospur = ex_cfg\<lparr> filterSpur := False \<rparr>"

text \<open>
  A dense graph of reads 1 and 2 before the filter passes, with a cutoff and a
  ceiling of 5 percent: the 5' edge of read 1 goes to the 3' end of read 2 at an
  error rate of 9 percent, and the 3' edge of read 2 to the 5' end of read 1 at 1
  percent.
\<close>

definition ex_noisy :: "(22, 12) graph" where
  "ex_noisy =
     graph0\<lparr> bestA := Some [BestOverlaps_default,
                BestOverlaps_default\<lparr> best5 := be_set_fields be_default 2 True (- 5) (- 7) 900 \<rparr>,
                BestOverlaps_default\<lparr> best3 := be_set_fields be_default 1 False 5 7 100 \<rparr>],
             scorA := Some [BestScores_default, BestScores_default, BestScores_default],
             erateGraph := 1 / 20, errorLimit := 1 / 20 \<rparr>"

text \<open>
  The best edge that the query finds at an end of a read in the result of a
  construction, if the construction and the query return.
\<close>

definition bestEdgeOf ::
  "construction_error + ('h::len, 'e::len) graph \<Rightarrow> uint32 \<Rightarrow> bool \<Rightarrow> ('h, 'e) edge option"
where
  "bestEdgeOf res readid threePrime =
     (case res of
        Inl err \<Rightarrow> None
      | Inr g \<Rightarrow>
          (case getBestEdgeOverlap g readid threePrime of
             Inl f \<Rightarrow> None
           | Inr (e, g') \<Rightarrow> Some e))"

text \<open>
  Overlaps of the 3' end of read 1: with read 2 at an error rate of 1 percent,
  not flipped and flipped; with read 3 over a longer stretch; with read 2 at an error
  rate of 9 percent.
\<close>

definition ex_o1 :: "(22, 12) olap" where
  "ex_o1 = \<lparr> a_iid = 1, b_iid = 2, a_hang = 5, b_hang = 7, flipped = False, evalue = 100 \<rparr>"

definition ex_o2 :: "(22, 12) olap" where
  "ex_o2 = \<lparr> a_iid = 1, b_iid = 2, a_hang = 5, b_hang = 7, flipped = True, evalue = 100 \<rparr>"

definition ex_o3 :: "(22, 12) olap" where
  "ex_o3 = \<lparr> a_iid = 1, b_iid = 3, a_hang = 4, b_hang = 9, flipped = False, evalue = 100 \<rparr>"

definition ex_o9 :: "(22, 12) olap" where
  "ex_o9 = \<lparr> a_iid = 1, b_iid = 2, a_hang = 5, b_hang = 7, flipped = False, evalue = 900 \<rparr>"

text \<open>A graph that holds a ceiling, a cutoff and the scores of read 1 only.\<close>

definition ex_numbers :: "real \<Rightarrow> BestScores \<Rightarrow> (22, 12) graph" where
  "ex_numbers c s = graph0\<lparr> errorLimit := c, erateGraph := c, scorA := Some [BestScores_default, s] \<rparr>"

section \<open>Properties of the code\<close>

subsection \<open>Shared facts\<close>

lemma be_clear_default: "be_clear x = be_default"
  by (simp add: be_clear_def be_default_def)

lemma ucast_31_32:
  "unat ((ucast :: 31 word \<Rightarrow> uint32) ((ucast :: uint32 \<Rightarrow> 31 word) w)) = unat w mod 2 ^ 31"
  by (simp add: unsigned_ucast_eq take_bit_eq_mod unat_mod)

lemma ReadEnd_of_readId_mod: "unat (re_readId (ReadEnd_of rid e3p)) = unat rid mod 2 ^ 31"
  by (simp add: re_readId_def ReadEnd_of_def ucast_31_32)

lemma ReadEnd_of_readId_small:
  assumes "unat rid < 2 ^ 31"
  shows "re_readId (ReadEnd_of rid e3p) = rid"
proof -
  from assms have "unat (re_readId (ReadEnd_of rid e3p)) = unat rid"
    by (simp add: ReadEnd_of_readId_mod)
  then show ?thesis by (simp only: word_unat_eq_iff)
qed

lemma ReadEnd_of_read3p: "re_read3p (ReadEnd_of rid e3p) = e3p"
  by (simp add: re_read3p_def ReadEnd_of_def)

lemma ReadEnd_of_0_readId: "re_readId (ReadEnd_of 0 e3p) = 0"
  by (simp add: re_readId_def ReadEnd_of_def)

lemma ex_dense_5: "getBestEdgeOverlap ex_dense 1 False = Inr (be_set_fields be_default 2 True 0 0 0, ex_dense)"
  by (simp add: getBestEdgeOverlap_def ex_dense_def array_at_def)

lemma ex_dense_3: "getBestEdgeOverlap ex_dense 1 True = Inr (be_default, ex_dense)"
  by (simp add: getBestEdgeOverlap_def ex_dense_def array_at_def BestOverlaps_default_def)

lemma ex_dense_out: "getBestEdgeOverlap ex_dense 2 t = Inl OutOfBounds"
  by (simp add: getBestEdgeOverlap_def ex_dense_def array_at_def)

lemma ex_sparse_new:
  "getBestEdgeOverlap ex_sparse 5 False =
     Inr (be_default, ex_sparse\<lparr> bestM := [5 \<mapsto> BestOverlaps_default] \<rparr>)"
  by (simp add: getBestEdgeOverlap_def ex_sparse_def graph0_def map_subscript_def
      BestOverlaps_default_def)

lemma ReadEnd_1: "re_readId (ReadEnd_of 1 t) = 1"
  by (simp add: re_readId_def ReadEnd_of_def)

subsection \<open>ReadEnd\<close>

text \<open>
  Claim C9. For every \<open>id\<close> below \<open>2^31\<close> and every end flag, \<open>ReadEnd(id, e3p)\<close>
  gives \<open>id\<close> back from \<open>readId()\<close> and \<open>e3p\<close> from \<open>read3p()\<close>; for every \<open>id\<close>,
  also one at or above \<open>2^31\<close>, the identifier read back is \<open>id\<close> modulo \<open>2^31\<close>,
  and the end flag is still \<open>e3p\<close>.
\<close>

theorem ReadEnd_id_bit_budget:
  "unat (re_readId (ReadEnd_of rid e3p)) = unat rid mod 2 ^ 31 \<and>
   re_read3p (ReadEnd_of rid e3p) = e3p \<and>
   (unat rid < 2 ^ 31 \<longrightarrow> re_readId (ReadEnd_of rid e3p) = rid)"
  by (simp add: ReadEnd_of_readId_mod ReadEnd_of_readId_small ReadEnd_of_read3p)

theorem ReadEnd_id_bit_budget_witness:
  "unat (7 :: uint32) < 2 ^ 31 \<and> re_readId (ReadEnd_of 7 True) = 7 \<and>
   re_read3p (ReadEnd_of 7 True) = True \<and>
   unat (re_readId (ReadEnd_of 0x80000003 False)) = 3"
  using ReadEnd_id_bit_budget [of 7 True] ReadEnd_id_bit_budget [of "0x80000003" False]
  by simp

subsection \<open>BestEdgeOverlap\<close>

text \<open>
  Claim C2. \<open>set(olap)\<close> stores the flipped flag of the overlap in the end bit when
  the hangs have the signs of a containment (\<open>a_hang \<le> 0\<close> and \<open>b_hang \<ge> 0\<close>, or
  \<open>a_hang \<ge> 0\<close> and \<open>b_hang \<le> 0\<close>), and \<open>olap.BEndIs3prime()\<close> otherwise; the
  identifier of the B read, both hangs and the error code are stored as they are, and
  nothing of the record's earlier contents is left.
\<close>

theorem be_set_stores:
  "be_set BEndIs3prime this ovl =
     \<lparr> be_id = b_iid ovl,
       be_e3p = (if (sint (a_hang ovl) \<le> 0 \<and> 0 \<le> sint (b_hang ovl)) \<or>
                    (0 \<le> sint (a_hang ovl) \<and> sint (b_hang ovl) \<le> 0)
                 then flipped ovl else BEndIs3prime ovl),
       be_ahang = a_hang ovl, be_bhang = b_hang ovl, be_evalue = evalue ovl \<rparr> \<and>
   be_readId (be_set BEndIs3prime this ovl) = b_iid ovl \<and>
   be_read3p (be_set BEndIs3prime this ovl) =
     (if (sint (a_hang ovl) \<le> 0 \<and> 0 \<le> sint (b_hang ovl)) \<or>
         (0 \<le> sint (a_hang ovl) \<and> sint (b_hang ovl) \<le> 0)
      then flipped ovl else BEndIs3prime ovl)"
  by (simp add: be_set_def hangs_contained_def be_readId_def be_read3p_def)

subsection \<open>The width check\<close>





subsection \<open>followOverlap\<close>

lemma ReadEnd_default_end:
  "re_readId ReadEnd_default = 0" "re_read5p ReadEnd_default"
  by (simp_all add: re_readId_def re_read5p_def ReadEnd_default_def)

text \<open>
  Claim C1, as amended. \<open>followOverlap\<close> is determined by the graph and the end it is
  given. If the end's read is 0, the result is the default end (read 0, 5' end) and
  the graph is untouched. Otherwise the best edge at the end is looked up; a fault of
  the lookup is the fault of \<open>followOverlap\<close>, and when the lookup returns an edge the
  result is an end whose read is the edge's read modulo \<open>2^31\<close> (the edge's read itself
  when that is below \<open>2^31\<close>) and whose 3' bit is the negation of the edge's end bit.
\<close>

theorem followOverlap_determined:
  "(re_readId e = 0 \<longrightarrow> followOverlap g e = Inr (ReadEnd_default, g)) \<and>
   re_readId ReadEnd_default = 0 \<and> re_read5p ReadEnd_default \<and>
   (re_readId e \<noteq> 0 \<longrightarrow>
      (\<forall>f. getBestEdgeOverlap g (re_readId e) (re_read3p e) = Inl f \<longrightarrow>
           followOverlap g e = Inl f) \<and>
      (\<forall>edge g'. getBestEdgeOverlap g (re_readId e) (re_read3p e) = Inr (edge, g') \<longrightarrow>
         (\<exists>r. followOverlap g e = Inr (r, g') \<and>
              unat (re_readId r) = unat (be_readId edge) mod 2 ^ 31 \<and>
              (unat (be_readId edge) < 2 ^ 31 \<longrightarrow> re_readId r = be_readId edge) \<and>
              re_read3p r = (\<not> be_read3p edge))))"
  by (simp add: followOverlap_def ReadEnd_of_readId_mod ReadEnd_of_readId_small
      ReadEnd_of_read3p ReadEnd_default_end)

theorem followOverlap_determined_witness:
  "re_readId (ReadEnd_of 0 True) = 0 \<and>
   followOverlap ex_dense (ReadEnd_of 0 True) = Inr (ReadEnd_default, ex_dense) \<and>
   re_readId (ReadEnd_of 1 False) \<noteq> 0 \<and>
   getBestEdgeOverlap ex_dense (re_readId (ReadEnd_of 1 False)) (re_read3p (ReadEnd_of 1 False)) =
     Inr (be_set_fields be_default 2 True 0 0 0, ex_dense) \<and>
   (\<exists>r. followOverlap ex_dense (ReadEnd_of 1 False) = Inr (r, ex_dense) \<and>
        re_readId r = 2 \<and> \<not> re_read3p r)"
proof -
  have z: "re_readId (ReadEnd_of 0 True) = 0"
    by (rule ReadEnd_of_0_readId)
  have n: "re_readId (ReadEnd_of 1 False) \<noteq> 0"
    by (simp add: ReadEnd_1)
  have l: "getBestEdgeOverlap ex_dense (re_readId (ReadEnd_of 1 False))
        (re_read3p (ReadEnd_of 1 False)) = Inr (be_set_fields be_default 2 True 0 0 0, ex_dense)"
    by (simp add: ReadEnd_1 ReadEnd_of_read3p ex_dense_5)
  have i: "be_readId (be_set_fields be_default 2 True 0 0 0 :: (22, 12) edge) = 2"
    "be_read3p (be_set_fields be_default 2 True 0 0 0 :: (22, 12) edge)"
    by (simp_all add: be_readId_def be_read3p_def be_set_fields_def)
  from followOverlap_determined [of "ReadEnd_of 0 True" ex_dense] z
  have a: "followOverlap ex_dense (ReadEnd_of 0 True) = Inr (ReadEnd_default, ex_dense)"
    by blast
  from followOverlap_determined [of "ReadEnd_of 1 False" ex_dense] n l
  obtain r where "followOverlap ex_dense (ReadEnd_of 1 False) = Inr (r, ex_dense)"
    and "unat (be_readId (be_set_fields be_default 2 True 0 0 0 :: (22, 12) edge)) < 2 ^ 31
           \<longrightarrow> re_readId r = be_readId (be_set_fields be_default 2 True 0 0 0 :: (22, 12) edge)"
    and "re_read3p r = (\<not> be_read3p (be_set_fields be_default 2 True 0 0 0 :: (22, 12) edge))"
    by blast
  with i have "\<exists>r. followOverlap ex_dense (ReadEnd_of 1 False) = Inr (r, ex_dense) \<and>
        re_readId r = 2 \<and> \<not> re_read3p r"
    by auto
  with z a n l show ?thesis by blast
qed

text \<open>
  The claim as it was stated asks for the edge's own read in the result. The 5' edge
  of read 1 of \<open>ex_wide\<close> names the read \<open>2^31\<close>; following it gives read 0.
\<close>

theorem followOverlap_readId_counterexample:
  "getBestEdgeOverlap ex_wide (re_readId (ReadEnd_of 1 False)) (re_read3p (ReadEnd_of 1 False)) =
     Inr (be_set_fields be_default 0x80000000 True 0 0 0, ex_wide) \<and>
   be_readId (be_set_fields be_default 0x80000000 True 0 0 0 :: (22, 12) edge) = 0x80000000 \<and>
   followOverlap ex_wide (ReadEnd_of 1 False) = Inr (ReadEnd_of 0 False, ex_wide) \<and>
   re_readId (ReadEnd_of 0 False) = 0"
  by (simp add: followOverlap_def getBestEdgeOverlap_def ex_wide_def array_at_def
      ReadEnd_of_def re_readId_def re_read3p_def be_set_fields_def be_readId_def be_read3p_def)

text \<open>
  Claim C10. When the end's read is not 0 and the best edge at the end is the cleared
  edge, \<open>followOverlap\<close> returns \<open>ReadEnd(0, true)\<close>. Its read is 0, so following it
  once more gives the default end; but it has the 3' bit set, and \<open>operator==\<close> tells
  it from the default end, whose 3' bit is clear.
\<close>

theorem followOverlap_cleared_edge:
  assumes "re_readId e \<noteq> 0"
    and "getBestEdgeOverlap g (re_readId e) (re_read3p e) = Inr (be_clear x, g')"
  shows "followOverlap g e = Inr (ReadEnd_of 0 True, g') \<and>
         re_readId (ReadEnd_of 0 True) = 0 \<and>
         re_read3p (ReadEnd_of 0 True) \<and>
         followOverlap g' (ReadEnd_of 0 True) = Inr (ReadEnd_default, g') \<and>
         \<not> re_eq (ReadEnd_of 0 True) ReadEnd_default \<and>
         re_neq (ReadEnd_of 0 True) ReadEnd_default \<and>
         \<not> re_read3p ReadEnd_default"
proof -
  have c: "be_readId (be_clear x) = 0" "\<not> be_read3p (be_clear x)"
    by (simp_all add: be_clear_def be_readId_def be_read3p_def)
  from assms c have "followOverlap g e = Inr (ReadEnd_of 0 True, g')"
    by (simp add: followOverlap_def)
  moreover have "followOverlap g' (ReadEnd_of 0 True) = Inr (ReadEnd_default, g')"
    by (simp add: followOverlap_def ReadEnd_of_0_readId)
  moreover have "\<not> re_eq (ReadEnd_of 0 True) ReadEnd_default"
    "re_neq (ReadEnd_of 0 True) ReadEnd_default" "\<not> re_read3p ReadEnd_default"
    by (simp_all add: re_eq_def re_neq_def re_read3p_def ReadEnd_default_def ReadEnd_of_def)
  ultimately show ?thesis
    by (simp add: ReadEnd_of_0_readId ReadEnd_of_read3p)
qed

theorem followOverlap_cleared_edge_witness:
  "re_readId (ReadEnd_of 1 True) \<noteq> 0 \<and>
   getBestEdgeOverlap ex_dense (re_readId (ReadEnd_of 1 True)) (re_read3p (ReadEnd_of 1 True)) =
     Inr (be_clear be_default, ex_dense) \<and>
   followOverlap ex_dense (ReadEnd_of 1 True) = Inr (ReadEnd_of 0 True, ex_dense) \<and>
   followOverlap ex_dense (ReadEnd_of 0 True) = Inr (ReadEnd_default, ex_dense) \<and>
   \<not> re_eq (ReadEnd_of 0 True) ReadEnd_default"
proof -
  have n: "re_readId (ReadEnd_of 1 True) \<noteq> 0"
    by (simp add: ReadEnd_1)
  have l: "getBestEdgeOverlap ex_dense (re_readId (ReadEnd_of 1 True))
        (re_read3p (ReadEnd_of 1 True)) = Inr (be_clear be_default, ex_dense)"
    by (simp add: ReadEnd_1 ReadEnd_of_read3p ex_dense_3 be_clear_default)
  from followOverlap_cleared_edge [OF n l] n l show ?thesis
    by simp
qed

subsection \<open>The queries and the state\<close>

text \<open>
  What a query can change, in any state of the object: nothing but the map \<open>_bestM\<close>,
  and that only when \<open>_bestA\<close> is null and the map has no entry for the read, where
  \<open>_bestM[readid]\<close> inserts the value-initialised entry. With the array allocated, a
  query that returns leaves the graph as it is.
\<close>

lemma queries_any_state:
  "(\<forall>e g'. getBestEdgeOverlap g readid threePrime = Inr (e, g') \<longrightarrow>
       g' = g\<lparr> bestM := bestM g' \<rparr> \<and>
       (bestA g \<noteq> None \<or> bestM g readid \<noteq> None \<longrightarrow> g' = g) \<and>
       (bestA g = None \<and> bestM g readid = None \<longrightarrow>
          bestM g' = (bestM g)(readid \<mapsto> BestOverlaps_default))) \<and>
   (\<forall>c g'. isContained g readid = Inr (c, g') \<longrightarrow>
       g' = g\<lparr> bestM := bestM g' \<rparr> \<and>
       (bestA g \<noteq> None \<or> bestM g readid \<noteq> None \<longrightarrow> g' = g) \<and>
       (bestA g = None \<and> bestM g readid = None \<longrightarrow>
          bestM g' = (bestM g)(readid \<mapsto> BestOverlaps_default))) \<and>
   snd (isSuspicious g readid) = g"
proof -
  have a: "\<forall>e g'. getBestEdgeOverlap g readid threePrime = Inr (e, g') \<longrightarrow>
       g' = g\<lparr> bestM := bestM g' \<rparr> \<and>
       (bestA g \<noteq> None \<or> bestM g readid \<noteq> None \<longrightarrow> g' = g) \<and>
       (bestA g = None \<and> bestM g readid = None \<longrightarrow>
          bestM g' = (bestM g)(readid \<mapsto> BestOverlaps_default))"
    by (auto simp: getBestEdgeOverlap_def map_subscript_def
        split: option.splits sum.splits)
  have b: "\<forall>c g'. isContained g readid = Inr (c, g') \<longrightarrow>
       g' = g\<lparr> bestM := bestM g' \<rparr> \<and>
       (bestA g \<noteq> None \<or> bestM g readid \<noteq> None \<longrightarrow> g' = g) \<and>
       (bestA g = None \<and> bestM g readid = None \<longrightarrow>
          bestM g' = (bestM g)(readid \<mapsto> BestOverlaps_default))"
    by (auto simp: isContained_def map_subscript_def
        split: option.splits sum.splits)
  have c: "snd (isSuspicious g readid) = g"
    by (simp add: isSuspicious_def)
  from a b c show ?thesis by blast
qed



section \<open>Properties of the construction\<close>

subsection \<open>The filter passes only clear edges\<close>

lemma keptOrCleared_refl: "keptOrCleared e e"
  by (simp add: keptOrCleared_def)

lemma keptOrCleared_trans: "keptOrCleared a b \<Longrightarrow> keptOrCleared b c \<Longrightarrow> keptOrCleared a c"
  by (auto simp: keptOrCleared_def)

lemma keptOrCleared_clearIf: "keptOrCleared (clearIf c e) e"
  by (simp add: keptOrCleared_def clearIf_def be_clear_default)

lemma keptOrCleared_clear: "keptOrCleared (be_clear e) e"
  by (simp add: keptOrCleared_def be_clear_default)

lemma tightensEntry_refl: "tightensEntry e e"
  by (simp add: tightensEntry_def keptOrCleared_refl)

lemma tightensEntry_trans: "tightensEntry a b \<Longrightarrow> tightensEntry b c \<Longrightarrow> tightensEntry a c"
  unfolding tightensEntry_def using keptOrCleared_trans by metis

lemma tightens_refl: "tightens g g"
  by (simp add: tightens_def list_all2_refl tightensEntry_refl split: option.splits)

lemma tightens_trans:
  assumes "tightens a b" "tightens b c"
  shows "tightens a c"
proof (cases "bestA c")
  case None
  with assms show ?thesis by (simp add: tightens_def)
next
  case (Some arr)
  with assms(2) obtain arr1 where b: "bestA b = Some arr1" "list_all2 tightensEntry arr1 arr"
    by (auto simp: tightens_def split: option.splits)
  with assms(1) obtain arr2 where a: "bestA a = Some arr2" "list_all2 tightensEntry arr2 arr1"
    by (auto simp: tightens_def split: option.splits)
  from a(2) b(2) have "list_all2 tightensEntry arr2 arr"
    by (rule list_all2_trans [rotated]) (rule tightensEntry_trans)
  with assms Some a(1) show ?thesis
    by (simp add: tightens_def)
qed

lemma not_retained_default: "\<not> retained be_default"
  by (simp add: retained_def)

lemma tightens_dense:
  assumes "bestA g = Some arr"
  shows "tightens h g \<longleftrightarrow> scorA h = scorA g \<and> errorLimit h = errorLimit g \<and> erateGraph h = erateGraph g \<and>
      (\<exists>arr'. bestA h = Some arr' \<and> list_all2 tightensEntry arr' arr)"
  using assms by (auto simp: tightens_def split: option.splits)

lemma tightens_sparse:
  assumes "bestA g = None"
  shows "tightens h g \<longleftrightarrow> scorA h = scorA g \<and> errorLimit h = errorLimit g \<and> erateGraph h = erateGraph g \<and> bestA h = None"
  using assms by (auto simp: tightens_def)

lemma highErrorEntry_tightens: "tightensEntry (highErrorEntry X g ent) ent"
  by (simp add: tightensEntry_def highErrorEntry_def keptOrCleared_clearIf)

lemma removeHighErrorBestEdges_tightens: "tightens (removeHighErrorBestEdges X g) g"
  by (cases "bestA g")
     (simp_all add: removeHighErrorBestEdges_def tightens_def list_all2_map1 list_all2_refl highErrorEntry_tightens)

lemma containedEntry_tightens: "tightensEntry (containedEntry X ent) ent"
  by (simp add: tightensEntry_def containedEntry_def keptOrCleared_clearIf keptOrCleared_refl)

lemma removeContainedDovetails_tightens: "tightens (removeContainedDovetails X g) g"
  by (cases "bestA g")
     (simp_all add: removeContainedDovetails_def tightens_def list_all2_map1 list_all2_refl containedEntry_tightens)

lemma lopsidedEntry_tightens: "tightensEntry (lopsidedEntry X s ent) ent"
  by (simp add: tightensEntry_def lopsidedEntry_def keptOrCleared_clear keptOrCleared_refl)

lemma removeLopsidedEdges_tightens: "tightens (removeLopsidedEdges X g) g"
  by (cases "bestA g")
     (simp_all add: removeLopsidedEdges_def tightens_def list_all2_conv_all_nth lopsidedEntry_tightens)

lemma spurEntry_tightens: "tightensEntry (spurEntry ent) ent"
  by (simp add: tightensEntry_def spurEntry_def keptOrCleared_clear keptOrCleared_refl)

lemma removeSpurs_tightens: "tightens (removeSpurs X g) g"
  by (cases "bestA g")
     (simp_all add: removeSpurs_def tightens_def list_all2_map1 list_all2_refl spurEntry_tightens tightensEntry_refl)

lemma removeSuspicious_tightens: "tightens (removeSuspicious g) g"
  by (cases "bestA g")
     (simp_all add: removeSuspicious_def tightens_def list_all2_refl tightensEntry_refl)

lemma record_same_best5: "best5 ent = e \<Longrightarrow> ent\<lparr> best5 := e \<rparr> = ent"
  by (cases ent) simp

lemma record_same_best3: "best3 ent = e \<Longrightarrow> ent\<lparr> best3 := e \<rparr> = ent"
  by (cases ent) simp

lemma isHighError_cong:
  "errorLimit h = errorLimit g \<Longrightarrow> erateGraph h = erateGraph g \<Longrightarrow> isHighError X h e = isHighError X g e"
  by (simp add: isHighError_def)

lemma isHighError_after:
  assumes "keptOrCleared e' (clearIf (isHighError X g e) e)"
  shows "\<not> isHighError X g e'"
proof (cases "e' = be_default")
  case True
  then show ?thesis by (simp add: isHighError_def not_retained_default)
next
  case False
  with assms have e: "e' = clearIf (isHighError X g e) e"
    by (simp add: keptOrCleared_def)
  show ?thesis
  proof
    assume h: "isHighError X g e'"
    show False
    proof (cases "isHighError X g e")
      case True
      with e have "e' = be_default" by (simp add: clearIf_def be_clear_default)
      with False show False by simp
    next
      case False
      with e h show False by (simp add: clearIf_def)
    qed
  qed
qed

lemma highErrorEntry_fixed:
  assumes "tightensEntry ent' (highErrorEntry X g ent)"
  shows "highErrorEntry X g ent' = ent'" and "nHighError X g ent' = 0"
proof -
  from assms have "keptOrCleared (best5 ent') (clearIf (isHighError X g (best5 ent)) (best5 ent))"
    and "keptOrCleared (best3 ent') (clearIf (isHighError X g (best3 ent)) (best3 ent))"
    by (simp_all add: tightensEntry_def highErrorEntry_def)
  then have n: "\<not> isHighError X g (best5 ent')" "\<not> isHighError X g (best3 ent')"
    by (simp_all add: isHighError_after)
  from n show "highErrorEntry X g ent' = ent'"
    by (simp add: highErrorEntry_def clearIf_def)
  from n show "nHighError X g ent' = 0"
    by (simp add: nHighError_def)
qed

lemma removeHighErrorBestEdges_fixed:
  assumes "tightens h (removeHighErrorBestEdges X g)"
  shows "removeHighErrorBestEdges X h = h"
proof (cases "bestA g")
  case None
  with assms have "bestA h = None"
    by (simp add: removeHighErrorBestEdges_def tightens_def)
  then show ?thesis by (simp add: removeHighErrorBestEdges_def)
next
  case (Some arr)
  then have b: "bestA (removeHighErrorBestEdges X g) = Some (map (highErrorEntry X g) arr)"
    and l: "errorLimit (removeHighErrorBestEdges X g) = errorLimit g"
           "erateGraph (removeHighErrorBestEdges X g) = erateGraph g"
    by (simp_all add: removeHighErrorBestEdges_def)
  from assms b l obtain arr' where a: "bestA h = Some arr'"
    and t: "list_all2 tightensEntry arr' (map (highErrorEntry X g) arr)"
    and e: "errorLimit h = errorLimit g" "erateGraph h = erateGraph g"
    by (auto simp: tightens_dense)
  from e have c: "highErrorEntry X h = highErrorEntry X g" "nHighError X h = nHighError X g"
    by (auto simp: fun_eq_iff highErrorEntry_def nHighError_def isHighError_cong [of h g])
  have f: "highErrorEntry X g ent' = ent' \<and> nHighError X g ent' = 0" if "ent' \<in> set arr'" for ent'
  proof -
    from that obtain i where i: "i < length arr'" "arr' ! i = ent'"
      by (auto simp: in_set_conv_nth)
    with t have "tightensEntry ent' (highErrorEntry X g (arr ! i))"
      by (auto simp: list_all2_conv_all_nth)
    then show ?thesis by (simp add: highErrorEntry_fixed)
  qed
  then have m: "map (highErrorEntry X g) arr' = arr'"
    by (simp add: map_idI)
  from f have z: "filter (\<lambda>ent. nHighError X g ent = 1) arr' = []"
    "filter (\<lambda>ent. nHighError X g ent = 2) arr' = []"
    by (auto simp: filter_empty_conv)
  from a c m z show ?thesis
    by (simp add: removeHighErrorBestEdges_def)
qed

lemma containedDovetail_after:
  assumes "keptOrCleared e' (clearIf (containedDovetail X e) e)"
  shows "\<not> containedDovetail X e'"
proof (cases "e' = be_default")
  case True
  then show ?thesis by (simp add: containedDovetail_def not_retained_default)
next
  case False
  with assms have e: "e' = clearIf (containedDovetail X e) e"
    by (simp add: keptOrCleared_def)
  show ?thesis
  proof
    assume h: "containedDovetail X e'"
    show False
    proof (cases "containedDovetail X e")
      case True
      with e have "e' = be_default" by (simp add: clearIf_def be_clear_default)
      with False show False by simp
    next
      case False
      with e h show False by (simp add: clearIf_def)
    qed
  qed
qed

lemma containedEntry_fixed:
  assumes "tightensEntry ent' (containedEntry X ent)"
  shows "containedEntry X ent' = ent'"
proof (cases "isC ent = 0")
  case True
  with assms have "isC ent' = 0"
    by (simp add: tightensEntry_def containedEntry_def)
  then show ?thesis by (simp add: containedEntry_def)
next
  case False
  with assms have "keptOrCleared (best5 ent') (clearIf (containedDovetail X (best5 ent)) (best5 ent))"
    and "keptOrCleared (best3 ent') (clearIf (containedDovetail X (best3 ent)) (best3 ent))"
    by (simp_all add: tightensEntry_def containedEntry_def)
  then have "\<not> containedDovetail X (best5 ent')" "\<not> containedDovetail X (best3 ent')"
    by (simp_all add: containedDovetail_after)
  then show ?thesis
    by (simp add: containedEntry_def clearIf_def)
qed

lemma removeContainedDovetails_fixed:
  assumes "tightens h (removeContainedDovetails X g)"
  shows "removeContainedDovetails X h = h"
proof (cases "bestA g")
  case None
  with assms have "bestA h = None"
    by (simp add: removeContainedDovetails_def tightens_def)
  then show ?thesis by (simp add: removeContainedDovetails_def)
next
  case (Some arr)
  then have b: "bestA (removeContainedDovetails X g) = Some (map (containedEntry X) arr)"
    by (simp add: removeContainedDovetails_def)
  from assms b obtain arr' where a: "bestA h = Some arr'"
    and t: "list_all2 tightensEntry arr' (map (containedEntry X) arr)"
    by (auto simp: tightens_dense)
  have "containedEntry X ent' = ent'" if "ent' \<in> set arr'" for ent'
  proof -
    from that obtain i where i: "i < length arr'" "arr' ! i = ent'"
      by (auto simp: in_set_conv_nth)
    with t have "tightensEntry ent' (containedEntry X (arr ! i))"
      by (auto simp: list_all2_conv_all_nth)
    then show ?thesis by (rule containedEntry_fixed)
  qed
  then have "map (containedEntry X) arr' = arr'"
    by (simp add: map_idI)
  with a show ?thesis
    by (simp add: removeContainedDovetails_def)
qed

lemma keptOrCleared_clear_fixed:
  assumes "keptOrCleared e' (be_clear e)"
  shows "be_clear e' = e'"
  using assms by (auto simp: keptOrCleared_def be_clear_default)

lemma lopsidedEntry_fixed:
  assumes "tightensEntry ent' (lopsidedEntry X s ent)"
  shows "lopsidedEntry X s ent' = ent'"
proof -
  consider (five) "lopsided_of X (sc_best5score s) (sc_best3score s)" "sc_best5score s < sc_best3score s"
    | (three) "lopsided_of X (sc_best5score s) (sc_best3score s)" "\<not> sc_best5score s < sc_best3score s"
        "sc_best3score s < sc_best5score s"
    | (none) "\<not> lopsided_of X (sc_best5score s) (sc_best3score s) \<or>
        (\<not> sc_best5score s < sc_best3score s \<and> \<not> sc_best3score s < sc_best5score s)"
    by blast
  then show ?thesis
  proof cases
    case five
    with assms have "keptOrCleared (best5 ent') (be_clear (best5 ent))"
      by (simp add: tightensEntry_def lopsidedEntry_def)
    then have "be_clear (best5 ent') = best5 ent'"
      by (rule keptOrCleared_clear_fixed)
    with five show ?thesis
      by (simp add: lopsidedEntry_def record_same_best5)
  next
    case three
    with assms have "keptOrCleared (best3 ent') (be_clear (best3 ent))"
      by (simp add: tightensEntry_def lopsidedEntry_def)
    then have "be_clear (best3 ent') = best3 ent'"
      by (rule keptOrCleared_clear_fixed)
    with three show ?thesis
      by (simp add: lopsidedEntry_def record_same_best3)
  next
    case none
    then show ?thesis
      by (auto simp: lopsidedEntry_def)
  qed
qed

lemma scoresOf_cong: "scorA h = scorA g \<Longrightarrow> scoresOf h i = scoresOf g i"
  by (simp add: scoresOf_def)

lemma removeLopsidedEdges_fixed:
  assumes "tightens h (removeLopsidedEdges X g)"
  shows "removeLopsidedEdges X h = h"
proof (cases "bestA g")
  case None
  with assms have "bestA h = None"
    by (simp add: removeLopsidedEdges_def tightens_def)
  then show ?thesis by (simp add: removeLopsidedEdges_def)
next
  case (Some arr)
  then have b: "bestA (removeLopsidedEdges X g) =
      Some (map (\<lambda>i. lopsidedEntry X (scoresOf g i) (arr ! i)) [0..<length arr])"
    and sg: "scorA (removeLopsidedEdges X g) = scorA g"
    by (simp_all add: removeLopsidedEdges_def)
  from assms b sg obtain arr' where a: "bestA h = Some arr'"
    and t: "list_all2 tightensEntry arr' (map (\<lambda>i. lopsidedEntry X (scoresOf g i) (arr ! i)) [0..<length arr])"
    and s: "scorA h = scorA g"
    by (auto simp: tightens_dense)
  have "map (\<lambda>i. lopsidedEntry X (scoresOf h i) (arr' ! i)) [0..<length arr'] = arr'"
  proof (rule nth_equalityI)
    show "length (map (\<lambda>i. lopsidedEntry X (scoresOf h i) (arr' ! i)) [0..<length arr']) = length arr'"
      by simp
  next
    fix i
    assume "i < length (map (\<lambda>i. lopsidedEntry X (scoresOf h i) (arr' ! i)) [0..<length arr'])"
    then have i: "i < length arr'" by simp
    with t have "tightensEntry (arr' ! i) (lopsidedEntry X (scoresOf g i) (arr ! i))"
      by (auto simp: list_all2_conv_all_nth)
    then have "lopsidedEntry X (scoresOf g i) (arr' ! i) = arr' ! i"
      by (rule lopsidedEntry_fixed)
    with i s show "map (\<lambda>i. lopsidedEntry X (scoresOf h i) (arr' ! i)) [0..<length arr'] ! i = arr' ! i"
      by (simp add: scoresOf_cong [of h g])
  qed
  with a show ?thesis
    by (simp add: removeLopsidedEdges_def)
qed

lemma retained_clear: "\<not> retained (be_clear e)"
  by (simp add: be_clear_default not_retained_default)

lemma spurEntry_not_spur: "\<not> isSpur (spurEntry ent)"
  by (auto simp: spurEntry_def isSpur_def retained_clear)

lemma spurEntry_idem: "spurEntry (spurEntry ent) = spurEntry ent"
  using spurEntry_not_spur [of ent] by (simp add: spurEntry_def [of "spurEntry ent"])

lemma removeSpurs_idem: "removeSpurs X (removeSpurs X g) = removeSpurs X g"
proof (cases "bestA g")
  case None
  then show ?thesis by (simp add: removeSpurs_def)
next
  case (Some arr)
  show ?thesis
  proof (cases "clearSpurs_of X")
    case True
    have "filter (\<lambda>i. isSpur (map spurEntry arr ! i)) [0..<length arr] = []"
      by (simp add: filter_empty_conv spurEntry_not_spur)
    with Some True show ?thesis
      by (simp add: removeSpurs_def spurEntry_idem)
  next
    case False
    with Some show ?thesis
      by (simp add: removeSpurs_def Un_assoc)
  qed
qed

lemma removeSpurs_removeSuspicious:
  assumes "removeSpurs X g = g"
  shows "removeSpurs X (removeSuspicious g) = removeSuspicious g"
proof (cases "bestA g")
  case None
  with assms show ?thesis by (simp add: removeSuspicious_def)
next
  case (Some arr)
  then have "removeSpurs X (removeSuspicious g) =
      (removeSpurs X g)\<lparr> suspicious := suspicious g \<union>
         set (map word_of_nat (filter (inconsistentRead arr) [0..<length arr])) \<rparr>"
    by (simp add: removeSpurs_def removeSuspicious_def)
  with assms Some show ?thesis
    by (simp add: removeSuspicious_def)
qed

lemma removeSuspicious_idem: "removeSuspicious (removeSuspicious g) = removeSuspicious g"
  by (cases "bestA g") (simp_all add: removeSuspicious_def Un_assoc)

lemma filterPasses_fixed_point: "filterPasses X cfg (filterPasses X cfg g) = filterPasses X cfg g"
proof -
  define g1 where "g1 = (if filterHighError cfg then removeHighErrorBestEdges X g else g)"
  define g2 where "g2 = removeContainedDovetails X g1"
  define g3 where "g3 = (if filterLopsided cfg then removeLopsidedEdges X g2 else g2)"
  define g4 where "g4 = (if filterSpur cfg then removeSpurs X g3 else g3)"
  define g5 where "g5 = (if filterSuspicious cfg then removeSuspicious g4 else g4)"
  have F: "filterPasses X cfg g = g5"
    by (simp add: filterPasses_def Let_def g1_def g2_def g3_def g4_def g5_def)
  have t54: "tightens g5 g4"
    by (simp add: g5_def removeSuspicious_tightens tightens_refl)
  have t43: "tightens g4 g3"
    by (simp add: g4_def removeSpurs_tightens tightens_refl)
  have t32: "tightens g3 g2"
    by (simp add: g3_def removeLopsidedEdges_tightens tightens_refl)
  have t21: "tightens g2 g1"
    by (simp add: g2_def removeContainedDovetails_tightens)
  from t54 t43 have t53: "tightens g5 g3" by (rule tightens_trans)
  from t53 t32 have t52: "tightens g5 g2" by (rule tightens_trans)
  from t52 t21 have t51: "tightens g5 g1" by (rule tightens_trans)
  have s1: "(if filterHighError cfg then removeHighErrorBestEdges X g5 else g5) = g5"
  proof (cases "filterHighError cfg")
    case True
    with t51 have "tightens g5 (removeHighErrorBestEdges X g)" by (simp add: g1_def)
    then show ?thesis by (simp add: removeHighErrorBestEdges_fixed)
  next
    case False
    then show ?thesis by simp
  qed
  have s2: "removeContainedDovetails X g5 = g5"
    using t52 unfolding g2_def by (rule removeContainedDovetails_fixed)
  have s3: "(if filterLopsided cfg then removeLopsidedEdges X g5 else g5) = g5"
  proof (cases "filterLopsided cfg")
    case True
    with t53 have "tightens g5 (removeLopsidedEdges X g2)" by (simp add: g3_def)
    then show ?thesis by (simp add: removeLopsidedEdges_fixed)
  next
    case False
    then show ?thesis by simp
  qed
  have s4: "(if filterSpur cfg then removeSpurs X g5 else g5) = g5"
  proof (cases "filterSpur cfg")
    case True
    then have "removeSpurs X g4 = g4"
      by (simp add: g4_def removeSpurs_idem)
    then show ?thesis
      by (simp add: g5_def removeSpurs_removeSuspicious)
  next
    case False
    then show ?thesis by simp
  qed
  have s5: "(if filterSuspicious cfg then removeSuspicious g5 else g5) = g5"
    by (simp add: g5_def removeSuspicious_idem)
  have "filterPasses X cfg g5 = g5"
    by (simp only: filterPasses_def Let_def s1 s2 s3 s4 s5)
  with F show ?thesis by simp
qed

lemma filterPasses_tightens: "tightens (filterPasses X cfg g) g"
proof -
  define g1 where "g1 = (if filterHighError cfg then removeHighErrorBestEdges X g else g)"
  define g2 where "g2 = removeContainedDovetails X g1"
  define g3 where "g3 = (if filterLopsided cfg then removeLopsidedEdges X g2 else g2)"
  define g4 where "g4 = (if filterSpur cfg then removeSpurs X g3 else g3)"
  define g5 where "g5 = (if filterSuspicious cfg then removeSuspicious g4 else g4)"
  have F: "filterPasses X cfg g = g5"
    by (simp add: filterPasses_def Let_def g1_def g2_def g3_def g4_def g5_def)
  have t54: "tightens g5 g4"
    by (simp add: g5_def removeSuspicious_tightens tightens_refl)
  have t43: "tightens g4 g3"
    by (simp add: g4_def removeSpurs_tightens tightens_refl)
  have t32: "tightens g3 g2"
    by (simp add: g3_def removeLopsidedEdges_tightens tightens_refl)
  have t21: "tightens g2 g1"
    by (simp add: g2_def removeContainedDovetails_tightens)
  have t10: "tightens g1 g"
    by (simp add: g1_def removeHighErrorBestEdges_tightens tightens_refl)
  from t54 t43 have "tightens g5 g3" by (rule tightens_trans)
  from this t32 have "tightens g5 g2" by (rule tightens_trans)
  from this t21 have "tightens g5 g1" by (rule tightens_trans)
  from this t10 have "tightens g5 g" by (rule tightens_trans)
  with F show ?thesis by simp
qed

lemma filterPasses_sparse: "bestA g = None \<Longrightarrow> filterPasses X cfg g = g"
  by (simp add: filterPasses_def Let_def removeHighErrorBestEdges_def removeContainedDovetails_def
      removeLopsidedEdges_def removeSpurs_def removeSuspicious_def)

lemma tightens_query:
  assumes "tightens h g" and "bestA g \<noteq> None"
    and "getBestEdgeOverlap h r t = Inr (e, h')"
  shows "\<exists>e0. getBestEdgeOverlap g r t = Inr (e0, g) \<and> keptOrCleared e e0"
proof -
  from assms(2) obtain arr where g: "bestA g = Some arr" by auto
  with assms(1) obtain arr' where h: "bestA h = Some arr'" and l: "list_all2 tightensEntry arr' arr"
    by (auto simp: tightens_dense)
  from l have n: "length arr' = length arr" by (rule list_all2_lengthD)
  from assms(3) h have r: "unat r < length arr'"
    and e: "e = (if t then best3 (arr' ! unat r) else best5 (arr' ! unat r))"
    by (auto simp: getBestEdgeOverlap_def array_at_def split: if_splits)
  from l r have "tightensEntry (arr' ! unat r) (arr ! unat r)"
    by (simp add: list_all2_conv_all_nth)
  with e have "keptOrCleared e (if t then best3 (arr ! unat r) else best5 (arr ! unat r))"
    by (simp add: tightensEntry_def)
  with g r n show ?thesis
    by (simp add: getBestEdgeOverlap_def array_at_def)
qed

lemma tightens_contained:
  assumes "tightens h g" and "bestA g \<noteq> None"
    and "isContained h r = Inr (c, h')"
  shows "isContained g r = Inr (c, g)"
proof -
  from assms(2) obtain arr where g: "bestA g = Some arr" by auto
  with assms(1) obtain arr' where h: "bestA h = Some arr'" and l: "list_all2 tightensEntry arr' arr"
    by (auto simp: tightens_dense)
  from l have n: "length arr' = length arr" by (rule list_all2_lengthD)
  from assms(3) h have r: "unat r < length arr'"
    and e: "c = (isC (arr' ! unat r) \<noteq> 0)"
    by (auto simp: isContained_def array_at_def split: if_splits)
  from l r have "tightensEntry (arr' ! unat r) (arr ! unat r)"
    by (simp add: list_all2_conv_all_nth)
  with e have "c = (isC (arr ! unat r) \<noteq> 0)"
    by (simp add: tightensEntry_def)
  with g r n show ?thesis
    by (simp add: isContained_def array_at_def)
qed


lemma filterPasses_after_first:
  "tightens (filterPasses X cfg g)
     (if filterHighError cfg then removeHighErrorBestEdges X g else g)"
proof -
  define g1 where "g1 = (if filterHighError cfg then removeHighErrorBestEdges X g else g)"
  define g2 where "g2 = removeContainedDovetails X g1"
  define g3 where "g3 = (if filterLopsided cfg then removeLopsidedEdges X g2 else g2)"
  define g4 where "g4 = (if filterSpur cfg then removeSpurs X g3 else g3)"
  define g5 where "g5 = (if filterSuspicious cfg then removeSuspicious g4 else g4)"
  have F: "filterPasses X cfg g = g5"
    by (simp add: filterPasses_def Let_def g1_def g2_def g3_def g4_def g5_def)
  have t54: "tightens g5 g4"
    by (simp add: g5_def removeSuspicious_tightens tightens_refl)
  have t43: "tightens g4 g3"
    by (simp add: g4_def removeSpurs_tightens tightens_refl)
  have t32: "tightens g3 g2"
    by (simp add: g3_def removeLopsidedEdges_tightens tightens_refl)
  have t21: "tightens g2 g1"
    by (simp add: g2_def removeContainedDovetails_tightens)
  from t54 t43 have "tightens g5 g3" by (rule tightens_trans)
  from this t32 have "tightens g5 g2" by (rule tightens_trans)
  from this t21 have "tightens g5 g1" by (rule tightens_trans)
  with F show ?thesis by (simp add: g1_def)
qed

lemma ex_noisy_filtered:
  "bestA (filterPasses ex_parts ex_cfg ex_noisy) =
     Some [BestOverlaps_default, BestOverlaps_default, BestOverlaps_default]"
  by code_simp

lemma ex_noisy_edge: "getBestEdgeOverlap ex_noisy 1 False =
    Inr (be_set_fields be_default 2 True (- 5) (- 7) 900, ex_noisy)"
  by (simp add: getBestEdgeOverlap_def ex_noisy_def array_at_def)

lemma ex_noisy_contained: "isContained ex_noisy 1 = Inr (False, ex_noisy)"
  by (simp add: isContained_def ex_noisy_def array_at_def BestOverlaps_default_def)

subsection \<open>The fixed point of the filter passes\<close>

text \<open>
  Claim C7. For every graph, the graph that one run of the filter pass sequence
  leaves is a fixed point of the sequence: a second run returns it as it is, so no
  best edge, no containment flag, no flag set and no counter changes; when the
  high-error pass is enabled, that pass alone also returns it as it is. Filtering
  adds no edge: each best edge that a query finds after the passes is the edge that
  the query found before them, or the zero edge, and each containment flag is the
  one found before.
\<close>

theorem filterPasses_idempotent:
  "filterPasses X cfg (filterPasses X cfg g) = filterPasses X cfg g \<and>
   (filterHighError cfg \<longrightarrow>
      removeHighErrorBestEdges X (filterPasses X cfg g) = filterPasses X cfg g) \<and>
   (\<forall>r t e g'. getBestEdgeOverlap (filterPasses X cfg g) r t = Inr (e, g') \<longrightarrow>
      (\<exists>e0 g0. getBestEdgeOverlap g r t = Inr (e0, g0) \<and> (e = e0 \<or> e = be_default))) \<and>
   (\<forall>r c g'. isContained (filterPasses X cfg g) r = Inr (c, g') \<longrightarrow>
      (\<exists>g0. isContained g r = Inr (c, g0)))"
proof -
  have a: "filterPasses X cfg (filterPasses X cfg g) = filterPasses X cfg g"
    by (rule filterPasses_fixed_point)
  have b: "removeHighErrorBestEdges X (filterPasses X cfg g) = filterPasses X cfg g"
    if "filterHighError cfg"
  proof -
    have "tightens (filterPasses X cfg g) (removeHighErrorBestEdges X g)"
      using that filterPasses_after_first [of X cfg g] by simp
    then show ?thesis by (rule removeHighErrorBestEdges_fixed)
  qed
  have c: "\<exists>e0 g0. getBestEdgeOverlap g r t = Inr (e0, g0) \<and> (e = e0 \<or> e = be_default)"
    if "getBestEdgeOverlap (filterPasses X cfg g) r t = Inr (e, g')" for r t e g'
  proof (cases "bestA g")
    case None
    with that show ?thesis by (auto simp: filterPasses_sparse)
  next
    case (Some arr)
    then have "bestA g \<noteq> None" by simp
    from tightens_query [OF filterPasses_tightens this that]
    show ?thesis by (auto simp: keptOrCleared_def)
  qed
  have d: "\<exists>g0. isContained g r = Inr (c, g0)"
    if "isContained (filterPasses X cfg g) r = Inr (c, g')" for r c g'
  proof (cases "bestA g")
    case None
    with that show ?thesis by (auto simp: filterPasses_sparse)
  next
    case (Some arr)
    then have "bestA g \<noteq> None" by simp
    from tightens_contained [OF filterPasses_tightens this that]
    show ?thesis by auto
  qed
  from a b c d show ?thesis by blast
qed

theorem filterPasses_idempotent_witness:
  "filterHighError ex_cfg \<and>
   removeHighErrorBestEdges ex_parts (filterPasses ex_parts ex_cfg ex_noisy) =
     filterPasses ex_parts ex_cfg ex_noisy \<and>
   getBestEdgeOverlap (filterPasses ex_parts ex_cfg ex_noisy) 1 False =
     Inr (be_default, filterPasses ex_parts ex_cfg ex_noisy) \<and>
   getBestEdgeOverlap ex_noisy 1 False =
     Inr (be_set_fields be_default 2 True (- 5) (- 7) 900, ex_noisy) \<and>
   isContained (filterPasses ex_parts ex_cfg ex_noisy) 1 =
     Inr (False, filterPasses ex_parts ex_cfg ex_noisy) \<and>
   isContained ex_noisy 1 = Inr (False, ex_noisy) \<and>
   filterPasses ex_parts ex_cfg (filterPasses ex_parts ex_cfg ex_noisy) =
     filterPasses ex_parts ex_cfg ex_noisy"
proof -
  have f: "filterHighError ex_cfg"
    by (simp add: ex_cfg_def)
  have q: "getBestEdgeOverlap (filterPasses ex_parts ex_cfg ex_noisy) 1 False =
     Inr (be_default, filterPasses ex_parts ex_cfg ex_noisy)"
    by (simp add: getBestEdgeOverlap_def ex_noisy_filtered array_at_def BestOverlaps_default_def)
  have c: "isContained (filterPasses ex_parts ex_cfg ex_noisy) 1 =
     Inr (False, filterPasses ex_parts ex_cfg ex_noisy)"
    by (simp add: isContained_def ex_noisy_filtered array_at_def BestOverlaps_default_def)
  from filterPasses_idempotent [of ex_parts ex_cfg ex_noisy] f
  have "removeHighErrorBestEdges ex_parts (filterPasses ex_parts ex_cfg ex_noisy) =
     filterPasses ex_parts ex_cfg ex_noisy"
    and "filterPasses ex_parts ex_cfg (filterPasses ex_parts ex_cfg ex_noisy) =
     filterPasses ex_parts ex_cfg ex_noisy"
    by blast+
  with f q c ex_noisy_edge ex_noisy_contained show ?thesis by blast
qed

subsection \<open>The scoring pass, read by read\<close>

lemma be_set_be_of: "be_set B best ovl = be_of B ovl"
  by (simp add: be_set_def be_of_def)

lemma sint_eq_iff: "sint v = sint w \<longleftrightarrow> v = w" for v w :: "'a::len word"
  by (auto intro: signed_word_eqI)

lemma unat_eq_iff_word: "unat v = unat w \<longleftrightarrow> v = w" for v w :: "'a::len word"
  by (simp add: word_unat_eq_iff)

lemma edgeRest_inj: "edgeRest e1 = edgeRest e2 \<Longrightarrow> be_id e1 = be_id e2 \<Longrightarrow> e1 = e2"
  for e1 e2 :: "('h::len, 'e::len) edge"
  by (cases e1; cases e2) (simp add: edgeRest_def sint_eq_iff unat_eq_iff_word)

lemma be_of_id: "be_readId (be_of B ovl) = b_iid ovl"
  by (simp add: be_of_def be_set_def be_readId_def)

lemma erate_be_of: "erate d (be_of B ovl) = d (evalue ovl)"
  by (simp add: erate_def be_of_def be_set_def)

text \<open>
  The comparison of \<open>wins\<close> is a strict order on the overlaps, seen through what
  they store: it is transitive and asymmetric, and two overlaps neither of which wins
  over the other store the same edge and the same score.
\<close>

lemma wins_trans:
  assumes "wins X o2 (be_of (BEndIs3prime_of X) o1) (scoreOverlap_of X o1)" and "wins X o1 e s"
  shows "wins X o2 e s"
  using assms
  by (auto simp: wins_def erate_be_of be_of_id)

lemma wins_asym:
  assumes "wins X o2 (be_of (BEndIs3prime_of X) o1) (scoreOverlap_of X o1)"
  shows "\<not> wins X o1 (be_of (BEndIs3prime_of X) o2) (scoreOverlap_of X o2)"
  using assms
  by (auto simp: wins_def erate_be_of be_of_id)

lemma wins_total:
  assumes "\<not> wins X o2 (be_of (BEndIs3prime_of X) o1) (scoreOverlap_of X o1)"
    and "\<not> wins X o1 (be_of (BEndIs3prime_of X) o2) (scoreOverlap_of X o2)"
  shows "be_of (BEndIs3prime_of X) o1 = be_of (BEndIs3prime_of X) o2 \<and>
     scoreOverlap_of X o1 = scoreOverlap_of X o2"
proof -
  let ?e1 = "be_of (BEndIs3prime_of X) o1" and ?e2 = "be_of (BEndIs3prime_of X) o2"
  from assms have s: "scoreOverlap_of X o1 = scoreOverlap_of X o2"
    and i: "b_iid o1 = b_iid o2" and r: "edgeRest ?e1 = edgeRest ?e2"
    by (auto simp: wins_def erate_be_of be_of_id)
  from i have "be_id ?e1 = be_id ?e2"
    by (simp add: be_of_def be_set_def)
  with r have "?e1 = ?e2" by (rule edgeRest_inj)
  with s show ?thesis by simp
qed

lemma wins_over_loser:
  assumes "wins X o1 e s" and "\<not> wins X o2 e s"
  shows "wins X o1 (be_of (BEndIs3prime_of X) o2) (scoreOverlap_of X o2)"
  using assms
  by (auto simp: wins_def erate_be_of be_of_id)

lemma edgeAt_putAt_same: "edgeAt t (putAt t es e v) = e"
  by (simp add: edgeAt_def putAt_def)

lemma scoreAt_putAt_same: "scoreAt t (putAt t es e v) = v"
  by (simp add: scoreAt_def putAt_def)

lemma edgeAt_putAt_other: "t \<noteq> t' \<Longrightarrow> edgeAt t (putAt t' es e v) = edgeAt t es"
  by (auto simp: edgeAt_def putAt_def)

lemma scoreAt_putAt_other: "t \<noteq> t' \<Longrightarrow> scoreAt t (putAt t' es e v) = scoreAt t es"
  by (auto simp: scoreAt_def putAt_def)

lemma putAt_putAt_same: "putAt t (putAt t es e v) e' v' = putAt t es e' v'"
  by (simp add: putAt_def)

lemma putAt_putAt_other:
  "t \<noteq> t' \<Longrightarrow> putAt t (putAt t' es e v) e' v' = putAt t' (putAt t es e' v') e v"
  by (auto simp: putAt_def)

lemma slotStep_dovetail:
  assumes "unat (targetRead ovl) = i" and "\<not> hangs_contained ovl"
  shows "slotStep X i ovl es =
     (if wins X ovl (edgeAt (AEndIs3prime ovl) es) (scoreAt (AEndIs3prime ovl) es)
      then putAt (AEndIs3prime ovl) es (be_of (BEndIs3prime_of X) ovl) (scoreOverlap_of X ovl)
      else es)"
  using assms by (simp add: slotStep_def be_set_be_of)

lemma slotStep_contained:
  assumes "unat (targetRead ovl) = i" and "hangs_contained ovl"
  shows "slotStep X i ovl es = ((fst es)\<lparr> isC := 1 \<rparr>, snd es)"
  using assms by (simp add: slotStep_def)

lemma slotStep_other:
  assumes "unat (targetRead ovl) \<noteq> i"
  shows "slotStep X i ovl es = es"
  using assms by (simp add: slotStep_def)

lemma dovetail_same_end_commute:
  fixes X :: "('h::len, 'e::len) parts" and t :: bool
  defines "B \<equiv> BEndIs3prime_of X"
  defines "D \<equiv> \<lambda>ovl es. (if wins X ovl (edgeAt t es) (scoreAt t es)
      then putAt t es (be_of B ovl) (scoreOverlap_of X ovl) else es)"
  shows "D o1 (D o2 es) = D o2 (D o1 es)"
proof -
  let ?e = "edgeAt t es" and ?s = "scoreAt t es"
  let ?p1 = "putAt t es (be_of B o1) (scoreOverlap_of X o1)"
  let ?p2 = "putAt t es (be_of B o2) (scoreOverlap_of X o2)"
  note wins_asym' = wins_asym [of X, folded B_def]
  note wins_over_loser' = wins_over_loser [of X, folded B_def]
  note wins_total' = wins_total [of X, folded B_def]
  show ?thesis
  proof (cases "wins X o1 ?e ?s")
    case w1: True
    show ?thesis
    proof (cases "wins X o2 ?e ?s")
      case w2: True
      have l: "D o1 (D o2 es) = (if wins X o1 (be_of B o2) (scoreOverlap_of X o2) then ?p1 else ?p2)"
        using w2 by (simp add: D_def edgeAt_putAt_same scoreAt_putAt_same putAt_putAt_same)
      have r: "D o2 (D o1 es) = (if wins X o2 (be_of B o1) (scoreOverlap_of X o1) then ?p2 else ?p1)"
        using w1 by (simp add: D_def edgeAt_putAt_same scoreAt_putAt_same putAt_putAt_same)
      consider (a) "wins X o1 (be_of B o2) (scoreOverlap_of X o2)"
        | (b) "wins X o2 (be_of B o1) (scoreOverlap_of X o1)"
        | (c) "\<not> wins X o1 (be_of B o2) (scoreOverlap_of X o2)"
              "\<not> wins X o2 (be_of B o1) (scoreOverlap_of X o1)"
        by blast
      then show ?thesis
      proof cases
        case a
        then have "\<not> wins X o2 (be_of B o1) (scoreOverlap_of X o1)" by (rule wins_asym')
        with a l r show ?thesis by simp
      next
        case b
        then have "\<not> wins X o1 (be_of B o2) (scoreOverlap_of X o2)" by (rule wins_asym')
        with b l r show ?thesis by simp
      next
        case c
        from c(2) c(1)
        have "be_of B o1 = be_of B o2 \<and> scoreOverlap_of X o1 = scoreOverlap_of X o2"
          by (rule wins_total')
        then have "?p1 = ?p2" by simp
        with c l r show ?thesis by simp
      qed
    next
      case w2: False
      from w1 w2 have "wins X o1 (be_of B o2) (scoreOverlap_of X o2)" by (rule wins_over_loser')
      then have n: "\<not> wins X o2 (be_of B o1) (scoreOverlap_of X o1)" by (rule wins_asym')
      from w1 w2 n show ?thesis
        by (simp add: D_def edgeAt_putAt_same scoreAt_putAt_same)
    qed
  next
    case w1: False
    show ?thesis
    proof (cases "wins X o2 ?e ?s")
      case w2: True
      from w2 w1 have "wins X o2 (be_of B o1) (scoreOverlap_of X o1)" by (rule wins_over_loser')
      then have n: "\<not> wins X o1 (be_of B o2) (scoreOverlap_of X o2)" by (rule wins_asym')
      from w1 w2 n show ?thesis
        by (simp add: D_def edgeAt_putAt_same scoreAt_putAt_same)
    next
      case w2: False
      with w1 show ?thesis by (simp add: D_def)
    qed
  qed
qed

lemma edgeAt_isC: "edgeAt t ((fst es)\<lparr> isC := c \<rparr>, snd es) = edgeAt t es"
  by (simp add: edgeAt_def)

lemma scoreAt_isC: "scoreAt t ((fst es)\<lparr> isC := c \<rparr>, snd es) = scoreAt t es"
  by (simp add: scoreAt_def)

lemma putAt_isC:
  "putAt t ((fst es)\<lparr> isC := c \<rparr>, snd es) e v =
     ((fst (putAt t es e v))\<lparr> isC := c \<rparr>, snd (putAt t es e v))"
  by (simp add: putAt_def)

lemma slotStep_commute:
  fixes X :: "('h::len, 'e::len) parts"
  shows "slotStep X i o1 (slotStep X i o2 es) = slotStep X i o2 (slotStep X i o1 es)"
proof (cases "unat (targetRead o1) = i \<and> unat (targetRead o2) = i")
  case False
  then show ?thesis by (auto simp: slotStep_other)
next
  case True
  then have i1: "unat (targetRead o1) = i" and i2: "unat (targetRead o2) = i" by simp_all
  show ?thesis
  proof (cases "hangs_contained o1")
    case c1: True
    show ?thesis
    proof (cases "hangs_contained o2")
      case c2: True
      from i1 i2 c1 c2 show ?thesis by (simp add: slotStep_contained)
    next
      case c2: False
      from i1 i2 c1 c2 show ?thesis
        by (simp add: slotStep_contained slotStep_dovetail edgeAt_isC scoreAt_isC putAt_isC)
    qed
  next
    case c1: False
    show ?thesis
    proof (cases "hangs_contained o2")
      case c2: True
      from i1 i2 c1 c2 show ?thesis
        by (simp add: slotStep_contained slotStep_dovetail edgeAt_isC scoreAt_isC putAt_isC)
    next
      case c2: False
      show ?thesis
      proof (cases "AEndIs3prime o1 = AEndIs3prime o2")
        case True
        have s1: "slotStep X i o1 z =
            (if wins X o1 (edgeAt (AEndIs3prime o2) z) (scoreAt (AEndIs3prime o2) z)
             then putAt (AEndIs3prime o2) z (be_of (BEndIs3prime_of X) o1) (scoreOverlap_of X o1)
             else z)" for z
          using i1 c1 True by (simp add: slotStep_dovetail)
        have s2: "slotStep X i o2 z =
            (if wins X o2 (edgeAt (AEndIs3prime o2) z) (scoreAt (AEndIs3prime o2) z)
             then putAt (AEndIs3prime o2) z (be_of (BEndIs3prime_of X) o2) (scoreOverlap_of X o2)
             else z)" for z
          using i2 c2 by (simp add: slotStep_dovetail)
        show ?thesis
          unfolding s1 s2 by (rule dovetail_same_end_commute)
      next
        case False
        then have ne: "AEndIs3prime o1 \<noteq> AEndIs3prime o2" "AEndIs3prime o2 \<noteq> AEndIs3prime o1"
          by auto
        from i1 i2 c1 c2 ne show ?thesis
          by (cases "AEndIs3prime o1"; cases "AEndIs3prime o2")
             (simp_all add: slotStep_dovetail edgeAt_def scoreAt_def putAt_def)
      qed
    qed
  qed
qed

lemma fold_slotStep_permuted:
  fixes X :: "('h::len, 'e::len) parts"
  assumes "mset olaps = mset olaps'"
  shows "fold (slotStep X i) olaps es = fold (slotStep X i) olaps' es"
proof (rule fold_permuted_eq [where P = "\<lambda>_. True"])
  show "mset olaps = mset olaps'" by (rule assms)
next
  fix x y z
  show "slotStep X i x (slotStep X i y z) = slotStep X i y (slotStep X i x z)"
    by (rule slotStep_commute)
qed simp_all

lemma dense_arrays:
  assumes "dense g n"
  obtains arr sc where "bestA g = Some arr" "scorA g = Some sc" "length arr = n" "length sc = n"
    "restrictEnabled g = False"
  using assms by (auto simp: dense_def split: option.splits)

lemma dense_withSlots: "dense g n \<Longrightarrow> dense (withSlots g n f) n"
  by (auto simp: dense_def withSlots_def split: option.splits)

lemma slotsOf_withSlots: "i < n \<Longrightarrow> slotsOf (withSlots g n f) i = f i"
  by (simp add: slotsOf_def withSlots_def)

lemma withSlots_withSlots: "withSlots (withSlots g n f) n f' = withSlots g n f'"
  by (simp add: withSlots_def)

lemma withSlots_cong: "(\<And>i. i < n \<Longrightarrow> f i = f' i) \<Longrightarrow> withSlots g n f = withSlots g n f'"
  by (simp add: withSlots_def)

lemma withSlots_slotsOf:
  assumes "dense g n"
  shows "withSlots g n (slotsOf g) = g"
proof -
  from assms obtain arr sc where a: "bestA g = Some arr" "scorA g = Some sc"
    "length arr = n" "length sc = n"
    by (rule dense_arrays)
  have "map (\<lambda>i. arr ! i) [0..<length arr] = arr" "map (\<lambda>i. sc ! i) [0..<length sc] = sc"
    by (rule map_nth)+
  with a(3,4) have "map (\<lambda>i. arr ! i) [0..<n] = arr" "map (\<lambda>i. sc ! i) [0..<n] = sc"
    by simp_all
  with a show ?thesis
    by (simp add: withSlots_def slotsOf_def)
qed

lemma list_update_as_map:
  assumes "k < length xs"
  shows "xs[k := v] = map (\<lambda>i. if i = k then v else xs ! i) [0..<length xs]"
  by (rule nth_equalityI) (simp_all add: nth_list_update)

lemma withSlots_update_entry:
  assumes "bestA g = Some arr" "scorA g = Some sc" "length arr = n" "length sc = n" "k < n"
  shows "g\<lparr> bestA := Some (arr[k := v]) \<rparr> =
     withSlots g n (\<lambda>i. if i = k then (v, sc ! i) else slotsOf g i)"
proof -
  have "arr[k := v] = map (\<lambda>i. fst (if i = k then (v, sc ! i) else slotsOf g i)) [0..<n]"
    using assms by (intro nth_equalityI) (simp_all add: nth_list_update slotsOf_def)
  moreover have "sc = map (\<lambda>i. snd (if i = k then (v, sc ! i) else slotsOf g i)) [0..<n]"
    using assms by (intro nth_equalityI) (simp_all add: slotsOf_def)
  ultimately show ?thesis
    using assms(2) by (simp add: withSlots_def)
qed

lemma scoreContainment_dense:
  assumes "dense g n"
  shows "scoreContainment g ovl =
     (if unat (containedRead ovl) < n
      then Inr (withSlots g n (\<lambda>i. if i = unat (containedRead ovl)
                  then ((fst (slotsOf g i))\<lparr> isC := 1 \<rparr>, snd (slotsOf g i)) else slotsOf g i))
      else Inl OutOfBounds)"
proof -
  from assms obtain arr sc where a: "bestA g = Some arr" "scorA g = Some sc"
    "length arr = n" "length sc = n"
    by (rule dense_arrays)
  show ?thesis
  proof (cases "unat (containedRead ovl) < n")
    case False
    with a show ?thesis
      by (simp add: scoreContainment_def setContained_def array_at_def)
  next
    case True
    with a have "scoreContainment g ovl =
        Inr (g\<lparr> bestA := Some (arr[unat (containedRead ovl) :=
               (arr ! unat (containedRead ovl))\<lparr> isC := 1 \<rparr>]) \<rparr>)"
      by (simp add: scoreContainment_def setContained_def array_at_def)
    also have "g\<lparr> bestA := Some (arr[unat (containedRead ovl) :=
               (arr ! unat (containedRead ovl))\<lparr> isC := 1 \<rparr>]) \<rparr> =
        withSlots g n (\<lambda>i. if i = unat (containedRead ovl)
          then ((arr ! unat (containedRead ovl))\<lparr> isC := 1 \<rparr>, sc ! i) else slotsOf g i)"
      using a True by (rule withSlots_update_entry)
    also have "\<dots> = withSlots g n (\<lambda>i. if i = unat (containedRead ovl)
                  then ((fst (slotsOf g i))\<lparr> isC := 1 \<rparr>, snd (slotsOf g i)) else slotsOf g i)"
      using a by (intro withSlots_cong) (simp add: slotsOf_def)
    finally show ?thesis using True by simp
  qed
qed

lemma withSlots_update_both:
  assumes "bestA g = Some arr" "scorA g = Some sc" "length arr = n" "length sc = n" "k < n"
  shows "g\<lparr> bestA := Some (arr[k := v]), scorA := Some (sc[k := w]) \<rparr> =
     withSlots g n (\<lambda>i. if i = k then (v, w) else slotsOf g i)"
proof -
  have "arr[k := v] = map (\<lambda>i. fst (if i = k then (v, w) else slotsOf g i)) [0..<n]"
    using assms by (intro nth_equalityI) (simp_all add: nth_list_update slotsOf_def)
  moreover have "sc[k := w] = map (\<lambda>i. snd (if i = k then (v, w) else slotsOf g i)) [0..<n]"
    using assms by (intro nth_equalityI) (simp_all add: nth_list_update slotsOf_def)
  ultimately show ?thesis
    by (simp add: withSlots_def)
qed

lemma scoreEdge_dense:
  assumes "dense g n"
  shows "scoreEdge X g ovl =
     (if unat (a_iid ovl) < n
      then Inr (withSlots g n (\<lambda>i. if i = unat (a_iid ovl)
             then (if wins X ovl (edgeAt (AEndIs3prime ovl) (slotsOf g i))
                                 (scoreAt (AEndIs3prime ovl) (slotsOf g i))
                   then putAt (AEndIs3prime ovl) (slotsOf g i)
                          (be_set (BEndIs3prime_of X) (edgeAt (AEndIs3prime ovl) (slotsOf g i)) ovl)
                          (scoreOverlap_of X ovl)
                   else slotsOf g i)
             else slotsOf g i))
      else Inl OutOfBounds)"
proof -
  from assms obtain arr sc where a: "bestA g = Some arr" "scorA g = Some sc"
    "length arr = n" "length sc = n" and r: "restrictEnabled g = False"
    by (rule dense_arrays)
  let ?k = "unat (a_iid ovl)" and ?t = "AEndIs3prime ovl"
  show ?thesis
  proof (cases "?k < n")
    case False
    with a show ?thesis
      by (simp add: scoreEdge_def getBestEdgeOverlap_def array_at_def)
  next
    case True
    let ?es = "slotsOf g ?k"
    have es: "?es = (arr ! ?k, sc ! ?k)"
      using a by (simp add: slotsOf_def)
    have q: "getBestEdgeOverlap g (a_iid ovl) ?t = Inr (edgeAt ?t ?es, g)"
      using a True by (simp add: getBestEdgeOverlap_def array_at_def edgeAt_def es)
    have s: "(if ?t then best3score g (a_iid ovl) else best5score g (a_iid ovl)) =
        Inr (scoreAt ?t ?es, g)"
      using a r True by (simp add: best3score_def best5score_def array_at_def scoreAt_def es)
    show ?thesis
    proof (cases "wins X ovl (edgeAt ?t ?es) (scoreAt ?t ?es)")
      case False
      have "withSlots g n (\<lambda>i. if i = ?k
             then (if wins X ovl (edgeAt ?t (slotsOf g i)) (scoreAt ?t (slotsOf g i))
                   then putAt ?t (slotsOf g i)
                          (be_set (BEndIs3prime_of X) (edgeAt ?t (slotsOf g i)) ovl)
                          (scoreOverlap_of X ovl)
                   else slotsOf g i)
             else slotsOf g i) = withSlots g n (slotsOf g)"
        using False by (intro withSlots_cong) simp
      also have "\<dots> = g"
        using assms by (rule withSlots_slotsOf)
      finally have "withSlots g n (\<lambda>i. if i = ?k
             then (if wins X ovl (edgeAt ?t (slotsOf g i)) (scoreAt ?t (slotsOf g i))
                   then putAt ?t (slotsOf g i)
                          (be_set (BEndIs3prime_of X) (edgeAt ?t (slotsOf g i)) ovl)
                          (scoreOverlap_of X ovl)
                   else slotsOf g i)
             else slotsOf g i) = g" .
      moreover from False True q s have "scoreEdge X g ovl = Inr g"
        by (simp add: scoreEdge_def)
      ultimately show ?thesis using True by simp
    next
      case w: True
      let ?e = "be_set (BEndIs3prime_of X) (edgeAt ?t ?es) ovl"
      let ?v = "scoreOverlap_of X ovl"
      let ?ent = "if ?t then (arr ! ?k)\<lparr> best3 := ?e \<rparr> else (arr ! ?k)\<lparr> best5 := ?e \<rparr>"
      let ?sco = "if ?t then (sc ! ?k)\<lparr> sc_best3score := ?v \<rparr>
                  else (sc ! ?k)\<lparr> sc_best5score := ?v \<rparr>"
      have p: "putBestEdge g (a_iid ovl) ?t ?e = Inr (g\<lparr> bestA := Some (arr[?k := ?ent]) \<rparr>)"
        using a True by (simp add: putBestEdge_def array_at_def)
      have p2: "putBestScore (g\<lparr> bestA := Some (arr[?k := ?ent]) \<rparr>) (a_iid ovl) ?t ?v =
          Inr (g\<lparr> bestA := Some (arr[?k := ?ent]), scorA := Some (sc[?k := ?sco]) \<rparr>)"
        using a r True by (simp add: putBestScore_def array_at_def)
      have "g\<lparr> bestA := Some (arr[?k := ?ent]), scorA := Some (sc[?k := ?sco]) \<rparr> =
          withSlots g n (\<lambda>i. if i = ?k then (?ent, ?sco) else slotsOf g i)"
        using a True by (rule withSlots_update_both)
      also have "\<dots> = withSlots g n (\<lambda>i. if i = ?k then putAt ?t (slotsOf g i) ?e ?v
          else slotsOf g i)"
        by (rule withSlots_cong) (simp add: putAt_def es)
      finally have "scoreEdge X g ovl =
          Inr (withSlots g n (\<lambda>i. if i = ?k then putAt ?t (slotsOf g i) ?e ?v else slotsOf g i))"
        using q s w p p2 by (simp add: scoreEdge_def)
      moreover have "withSlots g n (\<lambda>i. if i = ?k then putAt ?t (slotsOf g i) ?e ?v
            else slotsOf g i) =
          withSlots g n (\<lambda>i. if i = ?k
             then (if wins X ovl (edgeAt ?t (slotsOf g i)) (scoreAt ?t (slotsOf g i))
                   then putAt ?t (slotsOf g i)
                          (be_set (BEndIs3prime_of X) (edgeAt ?t (slotsOf g i)) ovl) ?v
                   else slotsOf g i)
             else slotsOf g i)"
        using w by (intro withSlots_cong) (simp add: be_set_be_of)
      ultimately show ?thesis using True by simp
    qed
  qed
qed

lemma scoreOne_dense:
  assumes "dense g n"
  shows "scoreOne X ovl (Inr g) =
     (if unat (targetRead ovl) < n
      then Inr (withSlots g n (\<lambda>i. slotStep X i ovl (slotsOf g i)))
      else Inl OutOfBounds)"
proof (cases "hangs_contained ovl")
  case True
  have "withSlots g n (\<lambda>i. if i = unat (containedRead ovl)
                  then ((fst (slotsOf g i))\<lparr> isC := 1 \<rparr>, snd (slotsOf g i)) else slotsOf g i) =
        withSlots g n (\<lambda>i. slotStep X i ovl (slotsOf g i))"
    using True by (intro withSlots_cong) (auto simp: slotStep_def targetRead_def)
  with True assms show ?thesis
    by (simp add: scoreOne_def scoreContainment_dense targetRead_def)
next
  case False
  have "withSlots g n (\<lambda>i. if i = unat (a_iid ovl)
             then (if wins X ovl (edgeAt (AEndIs3prime ovl) (slotsOf g i))
                                 (scoreAt (AEndIs3prime ovl) (slotsOf g i))
                   then putAt (AEndIs3prime ovl) (slotsOf g i)
                          (be_set (BEndIs3prime_of X) (edgeAt (AEndIs3prime ovl) (slotsOf g i)) ovl)
                          (scoreOverlap_of X ovl)
                   else slotsOf g i)
             else slotsOf g i) =
        withSlots g n (\<lambda>i. slotStep X i ovl (slotsOf g i))"
    using False by (intro withSlots_cong) (auto simp: slotStep_def targetRead_def)
  with False assms show ?thesis
    by (simp add: scoreOne_def scoreEdge_dense targetRead_def)
qed

lemma fold_scoreOne_fault: "fold (scoreOne X) olaps (Inl f) = Inl f"
  by (induction olaps) (simp_all add: scoreOne_def)

lemma findEdges_dense:
  assumes "dense g n"
  shows "findEdges X g olaps =
     (if \<forall>ovl\<in>set olaps. unat (targetRead ovl) < n
      then Inr (withSlots g n (\<lambda>i. fold (slotStep X i) olaps (slotsOf g i)))
      else Inl OutOfBounds)"
  using assms
proof (induction olaps arbitrary: g)
  case Nil
  then show ?case by (simp add: findEdges_def withSlots_slotsOf)
next
  case (Cons ovl olaps)
  show ?case
  proof (cases "unat (targetRead ovl) < n")
    case False
    with Cons.prems show ?thesis
      by (simp add: findEdges_def scoreOne_dense fold_scoreOne_fault)
  next
    case True
    let ?g = "withSlots g n (\<lambda>i. slotStep X i ovl (slotsOf g i))"
    from Cons.prems have d: "dense ?g n" by (rule dense_withSlots)
    from True Cons.prems have "findEdges X g (ovl # olaps) = findEdges X ?g olaps"
      by (simp add: findEdges_def scoreOne_dense)
    also have "\<dots> = (if \<forall>ovl\<in>set olaps. unat (targetRead ovl) < n
      then Inr (withSlots ?g n (\<lambda>i. fold (slotStep X i) olaps (slotsOf ?g i)))
      else Inl OutOfBounds)"
      using d by (rule Cons.IH)
    also have "withSlots ?g n (\<lambda>i. fold (slotStep X i) olaps (slotsOf ?g i)) =
        withSlots g n (\<lambda>i. fold (slotStep X i) (ovl # olaps) (slotsOf g i))"
    proof -
      have "withSlots ?g n (\<lambda>i. fold (slotStep X i) olaps (slotsOf ?g i)) =
          withSlots ?g n (\<lambda>i. fold (slotStep X i) (ovl # olaps) (slotsOf g i))"
        by (rule withSlots_cong) (simp add: slotsOf_withSlots)
      then show ?thesis by (simp add: withSlots_withSlots)
    qed
    finally show ?thesis using True by simp
  qed
qed

subsection \<open>The entries after the filter passes\<close>

lemma removeHighErrorBestEdges_bestA:
  "bestA g = Some arr \<Longrightarrow> bestA (removeHighErrorBestEdges X g) = Some (map (highErrorEntry X g) arr)"
  by (simp add: removeHighErrorBestEdges_def)

lemma removeContainedDovetails_bestA:
  "bestA g = Some arr \<Longrightarrow> bestA (removeContainedDovetails X g) = Some (map (containedEntry X) arr)"
  by (simp add: removeContainedDovetails_def)

lemma removeLopsidedEdges_bestA:
  "bestA g = Some arr \<Longrightarrow> bestA (removeLopsidedEdges X g) =
     Some (map (\<lambda>i. lopsidedEntry X (scoresOf g i) (arr ! i)) [0..<length arr])"
  by (simp add: removeLopsidedEdges_def)

lemma removeSpurs_bestA:
  "bestA g = Some arr \<Longrightarrow> bestA (removeSpurs X g) =
     Some (if clearSpurs_of X then map spurEntry arr else arr)"
  by (simp add: removeSpurs_def)

lemma removeSuspicious_bestA: "bestA (removeSuspicious g) = bestA g"
  by (cases "bestA g") (simp_all add: removeSuspicious_def)

lemma scoresOf_passes:
  "scoresOf (removeHighErrorBestEdges X g) = scoresOf g"
  "scoresOf (removeContainedDovetails X g) = scoresOf g"
  by (cases "bestA g"; simp add: fun_eq_iff scoresOf_def removeHighErrorBestEdges_def
        removeContainedDovetails_def)+

lemma filterPasses_entries:
  assumes "bestA g = Some arr"
  shows "bestA (filterPasses X cfg g) =
     Some (map (\<lambda>i. filteredEntry X cfg g i (arr ! i)) [0..<length arr])"
proof -
  define g1 where "g1 = (if filterHighError cfg then removeHighErrorBestEdges X g else g)"
  define g2 where "g2 = removeContainedDovetails X g1"
  define g3 where "g3 = (if filterLopsided cfg then removeLopsidedEdges X g2 else g2)"
  define g4 where "g4 = (if filterSpur cfg then removeSpurs X g3 else g3)"
  define g5 where "g5 = (if filterSuspicious cfg then removeSuspicious g4 else g4)"
  define a1 where "a1 = map (\<lambda>ent. if filterHighError cfg then highErrorEntry X g ent else ent) arr"
  define a2 where "a2 = map (containedEntry X) a1"
  define a3 where "a3 = map (\<lambda>i. if filterLopsided cfg then lopsidedEntry X (scoresOf g i) (a2 ! i) else a2 ! i) [0..<length arr]"
  define a4 where "a4 = map (\<lambda>ent. if filterSpur cfg \<and> clearSpurs_of X then spurEntry ent else ent) a3"
  have F: "filterPasses X cfg g = g5"
    by (simp add: filterPasses_def Let_def g1_def g2_def g3_def g4_def g5_def)
  have b1: "bestA g1 = Some a1" and s1: "scoresOf g1 = scoresOf g"
    using assms by (simp_all add: g1_def a1_def removeHighErrorBestEdges_bestA scoresOf_passes)
  have b2: "bestA g2 = Some a2" and s2: "scoresOf g2 = scoresOf g"
    using b1 s1 by (simp_all add: g2_def a2_def removeContainedDovetails_bestA scoresOf_passes)
  have l2: "length a2 = length arr"
    by (simp add: a2_def a1_def)
  have "map (\<lambda>i. a2 ! i) [0..<length a2] = a2" by (rule map_nth)
  with l2 have m2: "map (\<lambda>i. a2 ! i) [0..<length arr] = a2" by simp
  have b3: "bestA g3 = Some a3"
    using b2 s2 l2 m2 by (simp add: g3_def a3_def removeLopsidedEdges_bestA)
  have b4: "bestA g4 = Some a4"
    using b3 by (auto simp: g4_def a4_def removeSpurs_bestA)
  have b5: "bestA g5 = Some a4"
    using b4 by (simp add: g5_def removeSuspicious_bestA)
  have "a4 = map (\<lambda>i. filteredEntry X cfg g i (arr ! i)) [0..<length arr]"
    by (rule nth_equalityI)
       (simp_all add: a4_def a3_def a2_def a1_def filteredEntry_def Let_def)
  with F b5 show ?thesis by simp
qed

subsection \<open>The constructed graph\<close>

lemma dense_allocated: "dense (allocated cfg n) n"
  by (simp add: dense_def allocated_def)

lemma slotsOf_allocated:
  "i < n \<Longrightarrow> slotsOf (allocated cfg n) i = (BestOverlaps_default, BestScores_default)"
  by (simp add: slotsOf_def allocated_def)

lemma findEdges_allocated:
  "findEdges X (allocated cfg n) olaps =
     (if \<forall>ovl\<in>set olaps. unat (targetRead ovl) < n then Inr (scored X cfg n olaps)
      else Inl OutOfBounds)"
proof -
  have "withSlots (allocated cfg n) n
          (\<lambda>i. fold (slotStep X i) olaps (slotsOf (allocated cfg n) i)) = scored X cfg n olaps"
    unfolding scored_def by (rule withSlots_cong) (simp add: slotsOf_allocated)
  then show ?thesis
    by (simp add: findEdges_dense [OF dense_allocated])
qed

lemma BestOverlapGraph_new_cases:
  "BestOverlapGraph_new X cfg n olaps =
     (if \<not> validRates_of X (cfg_erateGraph cfg) (cfg_deviationGraph cfg)
      then Inl InvalidConfiguration
      else if \<forall>ovl\<in>set olaps. unat (targetRead ovl) < n
      then Inr (filterPasses X cfg (statisticsPass X (scored X cfg n olaps)))
      else Inl (Undefined OutOfBounds))"
  by (simp add: BestOverlapGraph_new_def findEdges_allocated)

lemma statisticsPass_fields:
  "bestA (statisticsPass X g) = bestA g"
  "scorA (statisticsPass X g) = scorA g"
  "erateGraph (statisticsPass X g) = erateGraph g"
  "suspicious (statisticsPass X g) = suspicious g"
  "scoresOf (statisticsPass X g) = scoresOf g"
  by (simp_all add: statisticsPass_def scoresOf_def fun_eq_iff split: prod.splits)

lemma scored_fields:
  "bestA (scored X cfg n olaps) =
     Some (map (\<lambda>i. fst (fold (slotStep X i) olaps (BestOverlaps_default, BestScores_default))) [0..<n])"
  "scorA (scored X cfg n olaps) =
     Some (map (\<lambda>i. snd (fold (slotStep X i) olaps (BestOverlaps_default, BestScores_default))) [0..<n])"
  "erateGraph (scored X cfg n olaps) = cfg_erateGraph cfg"
  "suspicious (scored X cfg n olaps) = {}"
  by (simp_all add: scored_def withSlots_def allocated_def)

text \<open>The entries of a constructed graph.\<close>

lemma constructed_entries:
  assumes "BestOverlapGraph_new X cfg n olaps = Inr g"
  shows "bestA g = Some (map (\<lambda>i. filteredEntry X cfg (statisticsPass X (scored X cfg n olaps)) i
            (fst (fold (slotStep X i) olaps (BestOverlaps_default, BestScores_default)))) [0..<n])"
proof -
  let ?s = "statisticsPass X (scored X cfg n olaps)"
  from assms have g: "g = filterPasses X cfg ?s"
    by (simp add: BestOverlapGraph_new_cases split: if_splits)
  have "bestA ?s = Some (map (\<lambda>i. fst (fold (slotStep X i) olaps
      (BestOverlaps_default, BestScores_default))) [0..<n])"
    by (simp add: statisticsPass_fields scored_fields)
  from filterPasses_entries [OF this, of X cfg] g show ?thesis
    by (simp cong: map_cong)
qed

lemma constructed_query:
  assumes "BestOverlapGraph_new X cfg n olaps = Inr g"
  shows "getBestEdgeOverlap g r t =
     (if unat r < n
      then Inr (edgeAt t (filteredEntry X cfg (statisticsPass X (scored X cfg n olaps)) (unat r)
                  (fst (fold (slotStep X (unat r)) olaps (BestOverlaps_default, BestScores_default))),
                  BestScores_default), g)
      else Inl OutOfBounds)"
  using constructed_entries [OF assms]
  by (simp add: getBestEdgeOverlap_def array_at_def edgeAt_def)

lemma scoresOf_constructed:
  assumes "i < n"
  shows "scoresOf (statisticsPass X (scored X cfg n olaps)) i =
     snd (fold (slotStep X i) olaps (BestOverlaps_default, BestScores_default))"
  using assms by (simp add: statisticsPass_fields scoresOf_def scored_fields)

lemma filteredEntry_cong:
  assumes "errorLimit g = errorLimit h" "erateGraph g = erateGraph h" "scoresOf g i = scoresOf h i"
  shows "filteredEntry X cfg g i ent = filteredEntry X cfg h i ent"
  using assms by (simp add: filteredEntry_def Let_def highErrorEntry_def isHighError_def)

lemma bestEdgeOf_constructed:
  assumes "validRates_of X (cfg_erateGraph cfg) (cfg_deviationGraph cfg)"
    and "\<forall>ovl\<in>set olaps. unat (targetRead ovl) < n"
    and "unat r < n"
    and "fold (slotStep X (unat r)) olaps (BestOverlaps_default, BestScores_default) = (ent, s)"
    and "errorLimit h = errorLimit (statisticsPass X (scored X cfg n olaps))"
    and "erateGraph h = cfg_erateGraph cfg"
    and "scoresOf h (unat r) = s"
  shows "bestEdgeOf (BestOverlapGraph_new X cfg n olaps) r t =
     Some (edgeAt t (filteredEntry X cfg h (unat r) ent, s))"
proof -
  let ?S = "statisticsPass X (scored X cfg n olaps)"
  let ?g = "filterPasses X cfg ?S"
  from assms(1,2) have c: "BestOverlapGraph_new X cfg n olaps = Inr ?g"
    by (simp add: BestOverlapGraph_new_cases)
  have "filteredEntry X cfg ?S (unat r) ent = filteredEntry X cfg h (unat r) ent"
  proof (rule filteredEntry_cong)
    show "errorLimit ?S = errorLimit h" using assms(5) by simp
    show "erateGraph ?S = erateGraph h"
      using assms(6) by (simp add: statisticsPass_fields scored_fields)
    show "scoresOf ?S (unat r) = scoresOf h (unat r)"
      using assms(3,4,7) by (simp add: scoresOf_constructed)
  qed
  with constructed_query [OF c, of r t] assms(3,4) c show ?thesis
    by (simp add: bestEdgeOf_def edgeAt_def)
qed

lemma ex_valid:
  "validRates_of ex_parts (cfg_erateGraph ex_cfg_nospur) (cfg_deviationGraph ex_cfg_nospur)"
  by (simp add: ex_parts_def ex_cfg_nospur_def ex_cfg_def)

lemma ex_targets:
  "unat (targetRead ex_o1) = 1" "unat (targetRead ex_o2) = 1"
  "unat (targetRead ex_o3) = 1" "unat (targetRead ex_o9) = 1"
  by (simp_all add: targetRead_def hangs_contained_def ex_o1_def ex_o2_def ex_o3_def ex_o9_def)

lemma ex_limit:
  "errorLimit (statisticsPass ex_parts (scored ex_parts cfg n olaps)) = cfg_erateGraph cfg"
  by (simp add: statisticsPass_def ex_parts_def scored_fields)

lemma ex_numbers_fields:
  "errorLimit (ex_numbers c s) = c" "erateGraph (ex_numbers c s) = c"
  "scoresOf (ex_numbers c s) (unat (1 :: uint32)) = s"
  by (simp_all add: ex_numbers_def scoresOf_def)

lemma slot1_12:
  "fold (slotStep ex_parts (unat (1 :: uint32))) [ex_o1, ex_o2] (BestOverlaps_default, BestScores_default) =
  (BestOverlaps_default\<lparr> best3 := \<lparr> be_id = 2, be_e3p = False, be_ahang = 5, be_bhang = 7, be_evalue = 100 \<rparr> \<rparr>,
   BestScores_default\<lparr> sc_best3score := 8589918107 \<rparr>)"
  by code_simp

subsection \<open>The order of the overlaps\<close>

lemma scored_permuted:
  assumes "mset olaps = mset olaps'"
  shows "scored X cfg n olaps = scored X cfg n olaps'"
  unfolding scored_def
  by (rule withSlots_cong) (simp add: fold_slotStep_permuted [OF assms])

text \<open>
  Claim C4. The construction does not depend on the order in which the overlaps are
  delivered: for every multiset of overlaps and every two delivery orders of it, the
  constructor, with the same parameters, returns the same result, the same graph or
  the same error, and so the same best edge at every end of every read. This holds
  for every choice of the score, of the decoding of error rates and of the other
  unspecified parts.
\<close>

theorem construction_order_independent:
  assumes "mset olaps = mset olaps'"
  shows "BestOverlapGraph_new X cfg n olaps = BestOverlapGraph_new X cfg n olaps' \<and>
         bestEdgeOf (BestOverlapGraph_new X cfg n olaps) r t =
           bestEdgeOf (BestOverlapGraph_new X cfg n olaps') r t"
proof -
  from assms have "set olaps = set olaps'" by (rule mset_eq_setD)
  with scored_permuted [OF assms] show ?thesis
    by (simp add: BestOverlapGraph_new_cases)
qed

lemma slot1_13:
  "fold (slotStep ex_parts (unat (1 :: uint32))) [ex_o1, ex_o3] (BestOverlaps_default, BestScores_default) =
  (BestOverlaps_default\<lparr> best3 := \<lparr> be_id = 3, be_e3p = False, be_ahang = 4, be_bhang = 9, be_evalue = 100 \<rparr> \<rparr>,
   BestScores_default\<lparr> sc_best3score := 8589922203 \<rparr>)"
  by code_simp

lemma slot1_21:
  "fold (slotStep ex_parts (unat (1 :: uint32))) [ex_o2, ex_o1] (BestOverlaps_default, BestScores_default) =
  (BestOverlaps_default\<lparr> best3 := \<lparr> be_id = 2, be_e3p = False, be_ahang = 5, be_bhang = 7, be_evalue = 100 \<rparr> \<rparr>,
   BestScores_default\<lparr> sc_best3score := 8589918107 \<rparr>)"
  by code_simp

lemmas ex_eval = filteredEntry_def Let_def highErrorEntry_def isHighError_def ex_numbers_def
  graph0_def scoresOf_def clearIf_def retained_def erate_def ex_cfg_nospur_def
  ex_cfg_def ex_parts_def containedEntry_def lopsidedEntry_def BestOverlaps_default_def
  BestScores_default_def be_default_def be_clear_def

lemma fe_any_low:
  "filteredEntry ex_parts ex_cfg_nospur (ex_numbers (1 / 20) (BestScores_default\<lparr> sc_best3score := v \<rparr>))
     (unat (1 :: uint32))
     (BestOverlaps_default\<lparr> best3 := \<lparr> be_id = b, be_e3p = f, be_ahang = x, be_bhang = y, be_evalue = 100 \<rparr> \<rparr>) =
   BestOverlaps_default\<lparr> best3 := \<lparr> be_id = b, be_e3p = f, be_ahang = x, be_bhang = y, be_evalue = 100 \<rparr> \<rparr>"
  by (simp add: ex_eval)

lemma ex_bestEdge:
  assumes "fold (slotStep ex_parts (unat (1 :: uint32))) olaps (BestOverlaps_default, BestScores_default) =
      (ent, s)"
    and "\<forall>ovl\<in>set olaps. unat (targetRead ovl) < 3"
  shows "bestEdgeOf (BestOverlapGraph_new ex_parts ex_cfg_nospur 3 olaps) 1 True =
     Some (best3 (filteredEntry ex_parts ex_cfg_nospur (ex_numbers (1 / 20) s) (unat (1 :: uint32)) ent))"
proof -
  have c: "cfg_erateGraph ex_cfg_nospur = 1 / 20"
    by (simp add: ex_cfg_nospur_def ex_cfg_def)
  have "bestEdgeOf (BestOverlapGraph_new ex_parts ex_cfg_nospur 3 olaps) 1 True =
     Some (edgeAt True (filteredEntry ex_parts ex_cfg_nospur (ex_numbers (1 / 20) s)
       (unat (1 :: uint32)) ent, s))"
  proof (rule bestEdgeOf_constructed)
    show "validRates_of ex_parts (cfg_erateGraph ex_cfg_nospur) (cfg_deviationGraph ex_cfg_nospur)"
      by (rule ex_valid)
    show "\<forall>ovl\<in>set olaps. unat (targetRead ovl) < 3" by (rule assms(2))
    show "unat (1 :: uint32) < 3" by simp
    show "fold (slotStep ex_parts (unat (1 :: uint32))) olaps (BestOverlaps_default, BestScores_default) =
      (ent, s)" by (rule assms(1))
    show "errorLimit (ex_numbers (1 / 20) s) =
       errorLimit (statisticsPass ex_parts (scored ex_parts ex_cfg_nospur 3 olaps))"
      by (simp add: ex_limit ex_numbers_fields c)
    show "erateGraph (ex_numbers (1 / 20) s) = cfg_erateGraph ex_cfg_nospur"
      by (simp add: ex_numbers_fields c)
    show "scoresOf (ex_numbers (1 / 20) s) (unat (1 :: uint32)) = s"
      by (rule ex_numbers_fields)
  qed
  then show ?thesis by (simp add: edgeAt_def)
qed

lemma ex_edge_12:
  "bestEdgeOf (BestOverlapGraph_new ex_parts ex_cfg_nospur 3 [ex_o1, ex_o2]) 1 True =
     Some \<lparr> be_id = 2, be_e3p = False, be_ahang = 5, be_bhang = 7, be_evalue = 100 \<rparr>"
proof -
  have "\<forall>ovl\<in>set [ex_o1, ex_o2]. unat (targetRead ovl) < 3"
    by (simp add: ex_targets)
  from ex_bestEdge [OF slot1_12 this] show ?thesis
    by (simp only: fe_any_low) (simp add: BestOverlaps_default_def)
qed

lemma ex_edge_13:
  "bestEdgeOf (BestOverlapGraph_new ex_parts ex_cfg_nospur 3 [ex_o1, ex_o3]) 1 True =
     Some \<lparr> be_id = 3, be_e3p = False, be_ahang = 4, be_bhang = 9, be_evalue = 100 \<rparr>"
proof -
  have "\<forall>ovl\<in>set [ex_o1, ex_o3]. unat (targetRead ovl) < 3"
    by (simp add: ex_targets)
  from ex_bestEdge [OF slot1_13 this] show ?thesis
    by (simp only: fe_any_low) (simp add: BestOverlaps_default_def)
qed

text \<open>
  The overlaps \<open>ex_o1\<close> and \<open>ex_o2\<close> differ in the flipped flag only and have the same
  score, error rate and target read; the edge of \<open>ex_o1\<close>, with the clear end bit, is
  retained in both orders. The overlap \<open>ex_o3\<close> has the higher score and is retained
  whether it is delivered before \<open>ex_o1\<close> or after it.
\<close>

theorem construction_order_independent_witness:
  "mset [ex_o1, ex_o2] = mset [ex_o2, ex_o1] \<and>
   BestOverlapGraph_new ex_parts ex_cfg_nospur 3 [ex_o1, ex_o2] =
     BestOverlapGraph_new ex_parts ex_cfg_nospur 3 [ex_o2, ex_o1] \<and>
   fst (fold (slotStep ex_parts (unat (1 :: uint32))) [ex_o2, ex_o1]
          (BestOverlaps_default, BestScores_default)) =
     BestOverlaps_default\<lparr> best3 :=
       \<lparr> be_id = 2, be_e3p = False, be_ahang = 5, be_bhang = 7, be_evalue = 100 \<rparr> \<rparr> \<and>
   bestEdgeOf (BestOverlapGraph_new ex_parts ex_cfg_nospur 3 [ex_o2, ex_o1]) 1 True =
     Some \<lparr> be_id = 2, be_e3p = False, be_ahang = 5, be_bhang = 7, be_evalue = 100 \<rparr> \<and>
   mset [ex_o1, ex_o3] = mset [ex_o3, ex_o1] \<and>
   bestEdgeOf (BestOverlapGraph_new ex_parts ex_cfg_nospur 3 [ex_o3, ex_o1]) 1 True =
     Some \<lparr> be_id = 3, be_e3p = False, be_ahang = 4, be_bhang = 9, be_evalue = 100 \<rparr>"
proof -
  have m: "mset [ex_o1, ex_o2] = mset [ex_o2, ex_o1]"
    and m': "mset [ex_o1, ex_o3] = mset [ex_o3, ex_o1]"
    by (simp_all add: add.commute)
  from construction_order_independent [OF m, of ex_parts ex_cfg_nospur 3 1 True] ex_edge_12
  have a: "BestOverlapGraph_new ex_parts ex_cfg_nospur 3 [ex_o1, ex_o2] =
       BestOverlapGraph_new ex_parts ex_cfg_nospur 3 [ex_o2, ex_o1]"
    and b: "bestEdgeOf (BestOverlapGraph_new ex_parts ex_cfg_nospur 3 [ex_o2, ex_o1]) 1 True =
       Some \<lparr> be_id = 2, be_e3p = False, be_ahang = 5, be_bhang = 7, be_evalue = 100 \<rparr>"
    by simp_all
  from construction_order_independent [OF m', of ex_parts ex_cfg_nospur 3 1 True] ex_edge_13
  have c: "bestEdgeOf (BestOverlapGraph_new ex_parts ex_cfg_nospur 3 [ex_o3, ex_o1]) 1 True =
       Some \<lparr> be_id = 3, be_e3p = False, be_ahang = 4, be_bhang = 9, be_evalue = 100 \<rparr>"
    by simp
  from m m' a b c slot1_21 show ?thesis by simp
qed

subsection \<open>The filter passes, entry by entry\<close>

lemma filteredEntry_tightens:
  "tightensEntry (filteredEntry X cfg g i ent)
     (if filterHighError cfg then highErrorEntry X g ent else ent)"
proof -
  define e1 where "e1 = (if filterHighError cfg then highErrorEntry X g ent else ent)"
  define e2 where "e2 = containedEntry X e1"
  define e3 where "e3 = (if filterLopsided cfg then lopsidedEntry X (scoresOf g i) e2 else e2)"
  define e4 where "e4 = (if filterSpur cfg \<and> clearSpurs_of X then spurEntry e3 else e3)"
  have f: "filteredEntry X cfg g i ent = e4"
    by (simp add: filteredEntry_def Let_def e1_def e2_def e3_def e4_def)
  have "tightensEntry e4 e3"
    by (simp add: e4_def spurEntry_tightens tightensEntry_refl)
  moreover have "tightensEntry e3 e2"
    by (simp add: e3_def lopsidedEntry_tightens tightensEntry_refl)
  moreover have "tightensEntry e2 e1"
    by (simp add: e2_def containedEntry_tightens)
  ultimately have "tightensEntry e4 e1"
    by (blast intro: tightensEntry_trans)
  with f show ?thesis by (simp add: e1_def)
qed

lemma filteredEntry_tightens_entry: "tightensEntry (filteredEntry X cfg g i ent) ent"
proof -
  have "tightensEntry (if filterHighError cfg then highErrorEntry X g ent else ent) ent"
    by (simp add: highErrorEntry_tightens tightensEntry_refl)
  with filteredEntry_tightens [of X cfg g i ent] show ?thesis
    by (rule tightensEntry_trans)
qed

subsection \<open>The queries on a constructed graph\<close>






subsection \<open>Reads that appear in no overlap\<close>

lemma fold_slotStep_untouched:
  assumes "\<forall>ovl\<in>set olaps. unat (targetRead ovl) \<noteq> i"
  shows "fold (slotStep X i) olaps es = es"
  using assms by (induction olaps arbitrary: es) (simp_all add: slotStep_other)

lemma tightensEntry_default:
  assumes "tightensEntry ent BestOverlaps_default"
  shows "ent = BestOverlaps_default"
  using assms
  by (cases ent) (auto simp: tightensEntry_def keptOrCleared_def BestOverlaps_default_def)

lemma filteredEntry_default:
  "filteredEntry X cfg g i BestOverlaps_default = BestOverlaps_default"
  using filteredEntry_tightens_entry by (rule tightensEntry_default)

lemma targetRead_cases: "targetRead ovl = a_iid ovl \<or> targetRead ovl = b_iid ovl"
  by (simp add: targetRead_def containedRead_def)

lemma untouched_index:
  assumes "\<forall>ovl\<in>set olaps. a_iid ovl \<noteq> r \<and> b_iid ovl \<noteq> r" and "word_of_nat i = r"
  shows "\<forall>ovl\<in>set olaps. unat (targetRead ovl) \<noteq> i"
proof
  fix ovl assume o: "ovl \<in> set olaps"
  show "unat (targetRead ovl) \<noteq> i"
  proof
    assume "unat (targetRead ovl) = i"
    then have "word_of_nat i = targetRead ovl" by auto
    with assms(2) have "targetRead ovl = r" by simp
    with targetRead_cases [of ovl] assms(1) o show False by auto
  qed
qed

lemma constructed_untouched_entry:
  assumes "\<forall>ovl\<in>set olaps. a_iid ovl \<noteq> r \<and> b_iid ovl \<noteq> r" and "word_of_nat i = r"
  shows "filteredEntry X cfg g i
      (fst (fold (slotStep X i) olaps (BestOverlaps_default, BestScores_default))) =
    BestOverlaps_default"
  using untouched_index [OF assms]
  by (simp add: fold_slotStep_untouched filteredEntry_default)

lemma suspicious_passes:
  "suspicious (removeHighErrorBestEdges X g) = suspicious g"
  "suspicious (removeContainedDovetails X g) = suspicious g"
  "suspicious (removeLopsidedEdges X g) = suspicious g"
  "suspicious (removeSpurs X g) = suspicious g"
  by (cases "bestA g"; simp add: removeHighErrorBestEdges_def removeContainedDovetails_def
        removeLopsidedEdges_def removeSpurs_def)+

lemma suspicious_filterPasses:
  assumes "r \<in> suspicious (filterPasses X cfg g)" and "r \<notin> suspicious g"
  shows "\<exists>arr i. bestA (filterPasses X cfg g) = Some arr \<and> i < length arr \<and> word_of_nat i = r \<and>
           (retained (best5 (arr ! i)) \<or> retained (best3 (arr ! i)))"
proof -
  define g4 where "g4 = (if filterSpur cfg then removeSpurs X else (\<lambda>g. g))
         ((if filterLopsided cfg then removeLopsidedEdges X else (\<lambda>g. g))
           (removeContainedDovetails X
             ((if filterHighError cfg then removeHighErrorBestEdges X else (\<lambda>g. g)) g)))"
  have F: "filterPasses X cfg g = (if filterSuspicious cfg then removeSuspicious g4 else g4)"
    by (simp add: filterPasses_def Let_def g4_def)
  have s4: "suspicious g4 = suspicious g"
    by (simp add: g4_def suspicious_passes)
  show ?thesis
  proof (cases "filterSuspicious cfg")
    case False
    with F s4 assms show ?thesis by simp
  next
    case True
    with F have f: "filterPasses X cfg g = removeSuspicious g4" by simp
    show ?thesis
    proof (cases "bestA g4")
      case None
      with f s4 assms show ?thesis by (simp add: removeSuspicious_def)
    next
      case (Some arr)
      with f have b: "bestA (filterPasses X cfg g) = Some arr"
        by (simp add: removeSuspicious_bestA)
      from f Some assms s4 have "r \<in> set (map word_of_nat (filter (inconsistentRead arr) [0..<length arr]))"
        by (simp add: removeSuspicious_def)
      then obtain i where "i < length arr" "word_of_nat i = r" "inconsistentRead arr i"
        by auto
      with b show ?thesis
        by (auto simp: inconsistentRead_def)
    qed
  qed
qed

lemma constructed_untouched:
  assumes c: "BestOverlapGraph_new X cfg n olaps = Inr g"
    and r: "unat r < n"
    and u: "\<forall>ovl\<in>set olaps. a_iid ovl \<noteq> r \<and> b_iid ovl \<noteq> r"
  shows "getBestEdgeOverlap g r t = Inr (be_default, g)"
    and "isContained g r = Inr (False, g)"
    and "isSuspicious g r = (False, g)"
proof -
  let ?S = "statisticsPass X (scored X cfg n olaps)"
  let ?f = "\<lambda>i. filteredEntry X cfg ?S i
            (fst (fold (slotStep X i) olaps (BestOverlaps_default, BestScores_default)))"
  have b: "bestA g = Some (map ?f [0..<n])"
    using c by (rule constructed_entries)
  have d: "?f i = BestOverlaps_default" if "word_of_nat i = r" for i
    using u that by (rule constructed_untouched_entry)
  have "word_of_nat (unat r) = r" by simp
  then have e: "?f (unat r) = BestOverlaps_default" by (rule d)
  from b r e show "getBestEdgeOverlap g r t = Inr (be_default, g)"
    by (simp add: getBestEdgeOverlap_def array_at_def BestOverlaps_default_def)
  from b r e show "isContained g r = Inr (False, g)"
    by (simp add: isContained_def array_at_def BestOverlaps_default_def)
  have "r \<notin> suspicious g"
  proof
    assume m: "r \<in> suspicious g"
    from c have g: "g = filterPasses X cfg ?S"
      by (simp add: BestOverlapGraph_new_cases split: if_splits)
    have "r \<notin> suspicious ?S"
      by (simp add: statisticsPass_fields scored_fields)
    with m g suspicious_filterPasses [of r X cfg ?S]
    obtain arr i where a: "bestA g = Some arr" "i < length arr" "word_of_nat i = r"
      "retained (best5 (arr ! i)) \<or> retained (best3 (arr ! i))"
      by auto
    from a(1,2) b have "arr ! i = ?f i" by auto
    with d [OF a(3)] a(4) show False
      by (simp add: BestOverlaps_default_def not_retained_default)
  qed
  then show "isSuspicious g r = (False, g)"
    by (simp add: isSuspicious_def)
qed

lemma be_default_fields:
  "be_readId (be_default :: ('h::len, 'e::len) edge) = 0"
  "\<not> be_read3p (be_default :: ('h::len, 'e::len) edge)"
  "ahang (be_default :: ('h::len, 'e::len) edge) = 0"
  "bhang (be_default :: ('h::len, 'e::len) edge) = 0"
  "evalue_of (be_default :: ('h::len, 'e::len) edge) = 0"
  by (simp_all add: be_default_def be_clear_def be_readId_def be_read3p_def ahang_def bhang_def
      evalue_of_def)

text \<open>
  Claim C3, as amended. \<open>getBestEdgeOverlap\<close> returns a record, and no fault, for
  every read that the storage covers: every read when \<open>_bestA\<close> is null, and every
  read below the length of the array otherwise, where the record returned is the one
  stored at that end. When no edge is retained at the end, the record is the zero
  edge: a cleared record is the zero record, a read with no entry in the map gets the
  zero entry, and the zero edge has read 0, a clear end bit, hangs 0 and error code 0.
  In a constructed graph, for every read within the storage that appears in no
  overlap, both ends return the zero edge and \<open>isContained\<close> and \<open>isSuspicious\<close>
  return false.
\<close>

theorem getBestEdgeOverlap_in_range:
  fixes g :: "('h::len, 'e::len) graph"
  shows
  "((bestA g = None \<or> (\<exists>arr. bestA g = Some arr \<and> unat r < length arr)) \<longrightarrow>
      (\<exists>e g'. getBestEdgeOverlap g r t = Inr (e, g'))) \<and>
   (\<forall>arr. bestA g = Some arr \<and> unat r < length arr \<longrightarrow>
      getBestEdgeOverlap g r t =
        Inr (if t then best3 (arr ! unat r) else best5 (arr ! unat r), g)) \<and>
   (bestA g = None \<and> bestM g r = None \<longrightarrow>
      getBestEdgeOverlap g r t =
        Inr (be_default, g\<lparr> bestM := (bestM g)(r \<mapsto> BestOverlaps_default) \<rparr>)) \<and>
   (\<forall>x :: ('h, 'e) edge. be_clear x = be_default) \<and>
   be_readId (be_default :: ('h, 'e) edge) = 0 \<and>
   \<not> be_read3p (be_default :: ('h, 'e) edge) \<and>
   ahang (be_default :: ('h, 'e) edge) = 0 \<and>
   bhang (be_default :: ('h, 'e) edge) = 0 \<and>
   evalue_of (be_default :: ('h, 'e) edge) = 0 \<and>
   (\<forall>X cfg n olaps gc.
      BestOverlapGraph_new X cfg n olaps = Inr gc \<and> unat r < n \<and>
      (\<forall>ovl\<in>set olaps. a_iid ovl \<noteq> r \<and> b_iid ovl \<noteq> r) \<longrightarrow>
        getBestEdgeOverlap gc r t = Inr (be_default, gc) \<and>
        isContained gc r = Inr (False, gc) \<and>
        isSuspicious (gc :: ('h, 'e) graph) r = (False, gc))"
proof -
  have a: "(bestA g = None \<or> (\<exists>arr. bestA g = Some arr \<and> unat r < length arr)) \<longrightarrow>
      (\<exists>e g'. getBestEdgeOverlap g r t = Inr (e, g'))"
    by (auto simp: getBestEdgeOverlap_def array_at_def map_subscript_def split: option.splits)
  have b: "\<forall>arr. bestA g = Some arr \<and> unat r < length arr \<longrightarrow>
      getBestEdgeOverlap g r t =
        Inr (if t then best3 (arr ! unat r) else best5 (arr ! unat r), g)"
    by (simp add: getBestEdgeOverlap_def array_at_def)
  have c: "bestA g = None \<and> bestM g r = None \<longrightarrow>
      getBestEdgeOverlap g r t =
        Inr (be_default, g\<lparr> bestM := (bestM g)(r \<mapsto> BestOverlaps_default) \<rparr>)"
    by (simp add: getBestEdgeOverlap_def map_subscript_def BestOverlaps_default_def)
  have d: "\<forall>X cfg n olaps gc.
      BestOverlapGraph_new X cfg n olaps = Inr gc \<and> unat r < n \<and>
      (\<forall>ovl\<in>set olaps. a_iid ovl \<noteq> r \<and> b_iid ovl \<noteq> r) \<longrightarrow>
        getBestEdgeOverlap gc r t = Inr (be_default, gc) \<and>
        isContained gc r = Inr (False, gc) \<and>
        isSuspicious (gc :: ('h, 'e) graph) r = (False, gc)"
    using constructed_untouched by blast
  from a b c d show ?thesis
    by (simp add: be_clear_default be_default_fields)
qed

text \<open>
  The claim as it was stated has the query return a record for every read. The array
  of \<open>ex_dense\<close> has two elements, and the query for read 2 subscripts it past its
  end.
\<close>

theorem getBestEdgeOverlap_out_of_range_counterexample:
  "getBestEdgeOverlap ex_dense 2 False = Inl OutOfBounds \<and>
   bestA ex_dense = Some [BestOverlaps_default,
     BestOverlaps_default\<lparr> best5 := be_set_fields be_default 2 True 0 0 0 \<rparr>]"
proof -
  have "bestA ex_dense = Some [BestOverlaps_default,
      BestOverlaps_default\<lparr> best5 := be_set_fields be_default 2 True 0 0 0 \<rparr>]"
    by (simp add: ex_dense_def)
  with ex_dense_out [of False] show ?thesis by blast
qed

lemma ex_constructed_9_4:
  "BestOverlapGraph_new ex_parts ex_cfg_nospur 4 [ex_o9] =
     Inr (filterPasses ex_parts ex_cfg_nospur
            (statisticsPass ex_parts (scored ex_parts ex_cfg_nospur 4 [ex_o9])))"
  by (simp add: BestOverlapGraph_new_cases ex_valid ex_targets)

theorem getBestEdgeOverlap_in_range_witness:
  "bestA ex_dense = Some [BestOverlaps_default,
     BestOverlaps_default\<lparr> best5 := be_set_fields be_default 2 True 0 0 0 \<rparr>] \<and>
   unat (1 :: uint32) < length [BestOverlaps_default,
     BestOverlaps_default\<lparr> best5 := be_set_fields be_default 2 True 0 0 0 \<rparr> :: (22, 12) overlaps] \<and>
   getBestEdgeOverlap ex_dense 1 True = Inr (be_default, ex_dense) \<and>
   bestA ex_sparse = None \<and> bestM ex_sparse 5 = None \<and>
   getBestEdgeOverlap ex_sparse 5 False =
     Inr (be_default, ex_sparse\<lparr> bestM := (bestM ex_sparse)(5 \<mapsto> BestOverlaps_default) \<rparr>) \<and>
   BestOverlapGraph_new ex_parts ex_cfg_nospur 4 [ex_o9] =
     Inr (filterPasses ex_parts ex_cfg_nospur
            (statisticsPass ex_parts (scored ex_parts ex_cfg_nospur 4 [ex_o9]))) \<and>
   unat (3 :: uint32) < 4 \<and> a_iid ex_o9 \<noteq> 3 \<and> b_iid ex_o9 \<noteq> 3 \<and>
   getBestEdgeOverlap (filterPasses ex_parts ex_cfg_nospur
            (statisticsPass ex_parts (scored ex_parts ex_cfg_nospur 4 [ex_o9]))) 3 True =
     Inr (be_default, filterPasses ex_parts ex_cfg_nospur
            (statisticsPass ex_parts (scored ex_parts ex_cfg_nospur 4 [ex_o9]))) \<and>
   isContained (filterPasses ex_parts ex_cfg_nospur
            (statisticsPass ex_parts (scored ex_parts ex_cfg_nospur 4 [ex_o9]))) 3 =
     Inr (False, filterPasses ex_parts ex_cfg_nospur
            (statisticsPass ex_parts (scored ex_parts ex_cfg_nospur 4 [ex_o9]))) \<and>
   isSuspicious (filterPasses ex_parts ex_cfg_nospur
            (statisticsPass ex_parts (scored ex_parts ex_cfg_nospur 4 [ex_o9]))) 3 =
     (False, filterPasses ex_parts ex_cfg_nospur
            (statisticsPass ex_parts (scored ex_parts ex_cfg_nospur 4 [ex_o9])))"
proof -
  let ?G = "filterPasses ex_parts ex_cfg_nospur
            (statisticsPass ex_parts (scored ex_parts ex_cfg_nospur 4 [ex_o9]))"
  have d: "bestA ex_dense = Some [BestOverlaps_default,
     BestOverlaps_default\<lparr> best5 := be_set_fields be_default 2 True 0 0 0 \<rparr>]"
    by (simp add: ex_dense_def)
  have l: "unat (1 :: uint32) < length [BestOverlaps_default,
     BestOverlaps_default\<lparr> best5 := be_set_fields be_default 2 True 0 0 0 \<rparr> :: (22, 12) overlaps]"
    by simp
  have s: "bestA ex_sparse = None" "bestM ex_sparse 5 = None"
    by (simp_all add: ex_sparse_def graph0_def)
  have u: "unat (3 :: uint32) < 4" "a_iid ex_o9 \<noteq> 3" "b_iid ex_o9 \<noteq> 3"
    "\<forall>ovl\<in>set [ex_o9]. a_iid ovl \<noteq> 3 \<and> b_iid ovl \<noteq> 3"
    by (simp_all add: ex_o9_def)
  from getBestEdgeOverlap_in_range [of ex_sparse 5 False] s
  have q1: "getBestEdgeOverlap ex_sparse 5 False =
     Inr (be_default, ex_sparse\<lparr> bestM := (bestM ex_sparse)(5 \<mapsto> BestOverlaps_default) \<rparr>)"
    by blast
  from getBestEdgeOverlap_in_range [of "?G" 3 True] ex_constructed_9_4 u
  have q2: "getBestEdgeOverlap ?G 3 True = Inr (be_default, ?G) \<and>
        isContained ?G 3 = Inr (False, ?G) \<and> isSuspicious ?G 3 = (False, ?G)"
    by blast
  from d l s u(1-3) q1 q2 ex_dense_3 ex_constructed_9_4 show ?thesis
    by blast
qed

end
